theory Spec2Isabelle
  imports Main
begin

section \<open>Commit checkbox navigation (assets/kiri.js, lines 112-267)\<close>

text \<open>
  The four keyboard navigation functions read the commit checkboxes
  \<^verbatim>\<open>$("#commits_form input:checkbox[name='commit']")\<close>, compute two JavaScript arrays of
  indices and write the checkboxes back. The checkboxes are modelled as the list of their
  \<^verbatim>\<open>checked\<close> flags, in document order.

  A JavaScript array of numbers is a list of \<open>int option\<close>: \<open>None\<close> is \<^verbatim>\<open>undefined\<close>,
  which is what a read past the end returns. A write past the end extends the array.
  A relational comparison with \<^verbatim>\<open>undefined\<close> is false; \<^verbatim>\<open>==\<close> between two array
  cells is equality of the options. The three arithmetic expressions of the source
  (lines 129, 139 and 210) are each guarded by a comparison that only numbers pass, so
  no \<^verbatim>\<open>NaN\<close> arises and \<open>map_option\<close> models them.

  \<^verbatim>\<open>commits[k].checked = true\<close> raises a TypeError when \<^verbatim>\<open>commits[k]\<close> is
  \<^verbatim>\<open>undefined\<close>, that is when \<open>k\<close> is no index of the list. The outcome keeps the
  state the checkboxes had when the exception left the function.

  Each function ends with a call of \<^verbatim>\<open>update_commits()\<close>, which redraws the views and
  neither reads nor writes the commit checkboxes; it is not part of this model.
\<close>

datatype 'a outcome = Done 'a | Threw 'a

fun state_of :: "'a outcome \<Rightarrow> 'a" where
  "state_of (Done s) = s"
| "state_of (Threw s) = s"

type_synonym js_array = "int option list"

definition js_get :: "js_array \<Rightarrow> nat \<Rightarrow> int option" where
  "js_get a k = (if k < length a then a ! k else None)"

definition js_set :: "js_array \<Rightarrow> nat \<Rightarrow> int option \<Rightarrow> js_array" where
  "js_set a k v =
     (if k < length a then a[k := v] else a @ replicate (k - length a) None @ [v])"

definition js_cmp :: "(int \<Rightarrow> int \<Rightarrow> bool) \<Rightarrow> int option \<Rightarrow> int option \<Rightarrow> bool" where
  "js_cmp r a b = (case (a, b) of (Some x, Some y) \<Rightarrow> r x y | _ \<Rightarrow> False)"

text \<open>The scanning loop: the indices of the checked boxes, in increasing order.\<close>

definition scan_checked :: "bool list \<Rightarrow> nat list" where
  "scan_checked commits = filter (\<lambda>i. commits ! i) [0..<length commits]"

definition js_of :: "nat list \<Rightarrow> js_array" where
  "js_of ks = map (\<lambda>i. Some (int i)) ks"

text \<open>The two closing loops, both bounded by \<^verbatim>\<open>selected_commits.length\<close>.\<close>

fun uncheck_all :: "nat list \<Rightarrow> bool list \<Rightarrow> bool list" where
  "uncheck_all [] cs = cs"
| "uncheck_all (k # ks) cs = uncheck_all ks (cs[k := False])"

fun check_all :: "int option list \<Rightarrow> bool list \<Rightarrow> bool list outcome" where
  "check_all [] cs = Done cs"
| "check_all (v # vs) cs =
     (case v of
        None \<Rightarrow> Threw cs
      | Some k \<Rightarrow>
          if 0 \<le> k \<and> k < int (length cs) then check_all vs (cs[nat k := True])
          else Threw cs)"

definition update_selected :: "bool list \<Rightarrow> nat list \<Rightarrow> js_array \<Rightarrow> bool list outcome" where
  "update_selected commits selected_commits next_selected_commits =
     check_all (map (js_get next_selected_commits) [0..<length selected_commits])
       (uncheck_all selected_commits commits)"

definition select_next_commit :: "bool list \<Rightarrow> bool list outcome" where
  "select_next_commit commits =
     (let n = int (length commits);
          selected_commits = scan_checked commits;
          nsc0 = map (\<lambda>i. Some (int i + 1)) selected_commits;
          nsc1 = (if js_cmp (\<ge>) (js_get nsc0 1) (Some (n - 1))
                  then js_set nsc0 1 (Some (n - 1)) else nsc0);
          nsc2 = (if js_cmp (\<ge>) (js_get nsc1 0) (Some (n - 2))
                  then js_set nsc1 0 (Some (n - 2)) else nsc1)
      in update_selected commits selected_commits nsc2)"

definition select_next_2_commits :: "bool list \<Rightarrow> bool list outcome" where
  "select_next_2_commits commits =
     (let n = int (length commits);
          selected_commits = scan_checked commits;
          nsc0 = map (\<lambda>i. Some (int i + 1)) selected_commits;
          nsc1 = (if js_cmp (\<ge>) (js_get nsc0 1) (Some n)
                  then (let a = js_set nsc0 1 (Some (n - 1))
                        in if js_cmp (\<le>) (js_get a 0) (Some (n - 2))
                           then js_set a 0
                                  (map_option (\<lambda>x. x + 1) (js_get (js_of selected_commits) 0))
                           else a)
                  else js_set nsc0 0 (js_get (js_of selected_commits) 0));
          nsc2 = (if js_cmp (\<ge>) (js_get nsc1 0) (js_get nsc1 1)
                  then js_set nsc1 0 (map_option (\<lambda>x. x - 1) (js_get nsc1 1)) else nsc1);
          nsc3 = (if js_cmp (\<ge>) (js_get nsc2 0) (Some (n - 2))
                  then js_set nsc2 0 (Some (n - 2)) else nsc2)
      in update_selected commits selected_commits nsc3)"

definition select_previows_2_commits :: "bool list \<Rightarrow> bool list outcome" where
  "select_previows_2_commits commits =
     (let selected_commits = scan_checked commits;
          nsc0 = map (\<lambda>i. Some (int i - 1)) selected_commits;
          nsc1 = js_set nsc0 0 (js_get (js_of selected_commits) 0);
          nsc2 = (if js_get nsc1 1 = js_get nsc1 0
                  then (if js_cmp (>) (js_get nsc1 0) (Some 0)
                        then js_set nsc1 0 (map_option (\<lambda>x. x - 1) (js_get nsc1 0))
                        else nsc1)
                  else nsc1);
          nsc3 = (if js_cmp (<) (js_get nsc2 0) (Some 0) then js_set nsc2 0 (Some 0) else nsc2);
          nsc4 = (if js_cmp (\<le>) (js_get nsc3 1) (Some 1) then js_set nsc3 1 (Some 1) else nsc3)
      in update_selected commits selected_commits nsc4)"

definition select_previows_commit :: "bool list \<Rightarrow> bool list outcome" where
  "select_previows_commit commits =
     (let selected_commits = scan_checked commits;
          nsc0 = map (\<lambda>i. Some (int i - 1)) selected_commits;
          nsc1 = (if js_cmp (\<le>) (js_get nsc0 0) (Some 0) then js_set nsc0 0 (Some 0) else nsc0);
          nsc2 = (if js_cmp (\<le>) (js_get nsc1 1) (Some 1) then js_set nsc1 1 (Some 1) else nsc1)
      in update_selected commits selected_commits nsc2)"

text \<open>
  \<open>two_checked n i j\<close> is the checkbox list of length \<open>n\<close> whose checked entries are
  exactly \<open>i\<close> and \<open>j\<close>.
\<close>

definition two_checked :: "nat \<Rightarrow> nat \<Rightarrow> nat \<Rightarrow> bool list" where
  "two_checked n i j = map (\<lambda>k. k = i \<or> k = j) [0..<n]"



section \<open>The commits form (assets/kiri.js, lines 269-280, 408-414, 1106-1115)\<close>

text \<open>
  The \<^verbatim>\<open>change\<close> handler of every commit checkbox counts the checked commit inputs and,
  above two, unchecks \<^verbatim>\<open>this\<close>, the checkbox whose change raised the event (index
  \<open>k\<close> here). A click of the user toggles the checkbox and raises the event.
  \<^verbatim>\<open>reset_commits_selection\<close> unchecks every checkbox and checks the first two. These and
  the four navigation functions, bound to keys by \<^verbatim>\<open>Mousetrap.bind\<close>, are all the writes
  to the commit checkboxes in the file. A function that raises leaves the checkboxes as
  they were at that moment.
\<close>

definition count_checked :: "bool list \<Rightarrow> nat" where
  "count_checked commits = length (filter (\<lambda>c. c) commits)"

definition commits_change :: "nat \<Rightarrow> bool list \<Rightarrow> bool list" where
  "commits_change k commits =
     (let max_allowed = 2;
          count = count_checked commits
      in if count > max_allowed then commits[k := False] else commits)"

definition user_toggle :: "nat \<Rightarrow> bool list \<Rightarrow> bool list" where
  "user_toggle k commits =
     (if k < length commits then commits_change k (commits[k := \<not> commits ! k]) else commits)"

definition reset_commits_selection :: "bool list \<Rightarrow> bool list outcome" where
  "reset_commits_selection commits =
     check_all [Some 0, Some 1] (replicate (length commits) False)"

datatype form_event =
  Toggle nat | Key_next_2 | Key_next | Key_previows_2 | Key_previows | Key_reset

fun form_step :: "form_event \<Rightarrow> bool list \<Rightarrow> bool list" where
  "form_step (Toggle k) commits = user_toggle k commits"
| "form_step Key_next_2 commits = state_of (select_next_2_commits commits)"
| "form_step Key_next commits = state_of (select_next_commit commits)"
| "form_step Key_previows_2 commits = state_of (select_previows_2_commits commits)"
| "form_step Key_previows commits = state_of (select_previows_commit commits)"
| "form_step Key_reset commits = state_of (reset_commits_selection commits)"

section \<open>Clicking a commit in the graph (assets/kiri.js, lines 42-84)\<close>

text \<open>
  \<^verbatim>\<open>gitgraph._graph.commits\<close> is modelled as the list of its hashes. The two selected
  commits are the globals \<^verbatim>\<open>commit1\<close> and \<^verbatim>\<open>commit2\<close>, \<open>None\<close> while still
  \<^verbatim>\<open>undefined\<close>; \<^verbatim>\<open>==\<close> between a hash of the graph and one of them is equality with
  \<open>Some\<close> of the hash. The first loop leaves in each index variable the last position
  whose hash matches, and \<open>0\<close> when none does. The second loop colours every commit of
  the graph (message colour, dot colour). \<open>commit_click\<close> is the function up to the
  closing calls \<^verbatim>\<open>gitgraph._graph.next()\<close> and \<^verbatim>\<open>update_commits()\<close>, which redraw the
  page; what the latter does to the two globals is \<open>read_back\<close> below.
\<close>

record click_state =
  commit1 :: "string option"
  commit2 :: "string option"
  style :: "(string \<times> string) list"

definition scan_graph ::
  "string list \<Rightarrow> string option \<Rightarrow> string option \<Rightarrow> string option \<Rightarrow> nat \<times> nat \<times> nat" where
  "scan_graph graph hash c1 c2 =
     fold (\<lambda>i (hash_idx, commit1_idx, commit2_idx).
             (if Some (graph ! i) = hash then i else hash_idx,
              if Some (graph ! i) = c1 then i else commit1_idx,
              if Some (graph ! i) = c2 then i else commit2_idx))
          [0..<length graph] (0, 0, 0)"

definition commit_style :: "string option \<Rightarrow> string option \<Rightarrow> string \<Rightarrow> string \<times> string" where
  "commit_style c1 c2 h =
     (if Some h = c1 then (''#0FF'', ''#0FF'')
      else if Some h = c2 then (''#F00'', ''#F00'')
      else (''#fff'', ''''))"

definition commit_click :: "string list \<Rightarrow> string option \<Rightarrow> click_state \<Rightarrow> click_state" where
  "commit_click graph hash s =
     (case scan_graph graph hash (commit1 s) (commit2 s) of
        (hash_idx, commit1_idx, commit2_idx) \<Rightarrow>
          (let s' = (if hash_idx \<le> commit2_idx then s\<lparr>commit2 := hash\<rparr>
                     else if hash_idx \<ge> commit1_idx then s\<lparr>commit1 := hash\<rparr>
                     else if int hash_idx - int commit2_idx < int commit1_idx - int hash_idx
                          then s\<lparr>commit2 := hash\<rparr>
                     else s\<lparr>commit1 := hash\<rparr>)
           in s'\<lparr>style := map (commit_style (commit1 s') (commit2 s')) graph\<rparr>))"

text \<open>
  \<^verbatim>\<open>update_commits\<close> stores the two globals in the hidden inputs \<^verbatim>\<open>commit1_hash\<close> and
  \<^verbatim>\<open>commit2_hash\<close> (lines 526-527), and \<^verbatim>\<open>update_fullscreen_label\<close>, which closes
  \<^verbatim>\<open>update_page\<close> and \<^verbatim>\<open>update_layer\<close>, assigns the values of the two inputs to the
  globals (lines 1472-1473). The value of an input is a string: a hash comes back as it
  is, \<^verbatim>\<open>undefined\<close> as the string \<^verbatim>\<open>undefined\<close>. When the redraw raises an exception or
  the view is the 3D view, the globals are not read back.
\<close>

definition input_value :: "string option \<Rightarrow> string" where
  "input_value v = (case v of None \<Rightarrow> ''undefined'' | Some h \<Rightarrow> h)"

definition read_back :: "click_state \<Rightarrow> click_state" where
  "read_back s =
     s\<lparr>commit1 := Some (input_value (commit1 s)), commit2 := Some (input_value (commit2 s))\<rparr>"


section \<open>Pan and zoom across view switches (assets/kiri.js, lines 1308-1311, 1374-1405, 1432-1467)\<close>

text \<open>
  The zoom (a number) and the pan (an object with two coordinates) are values of the
  pan/zoom library; the code only stores them, passes them back and compares a zoom with
  \<^verbatim>\<open>null\<close> or with a stored zoom, so they are values of two arbitrary types here, with
  \<open>None\<close> for \<^verbatim>\<open>null\<close>. The state holds the six saved-state globals,
  \<^verbatim>\<open>panZoom_instance\<close> and the calls of \<^verbatim>\<open>zoom\<close> and \<^verbatim>\<open>pan\<close> that the code has made
  on the instance, in order. \<^verbatim>\<open>old_view\<close> and \<^verbatim>\<open>current_view\<close>, which the functions
  of this section only read, are the arguments \<open>the_old_view\<close> and
  \<open>the_current_view\<close>.

  A live instance is given by the images it was created for and by what its
  \<^verbatim>\<open>getZoom()\<close> and \<^verbatim>\<open>getPan()\<close> return at this moment; \<open>None\<close> is \<^verbatim>\<open>null\<close>.
  \<^verbatim>\<open>createNewEmbed\<close> has two callers: \<^verbatim>\<open>update_page\<close> passes the schematic images
  (\<^verbatim>\<open>_KIRI_/sch/\<close>) and \<^verbatim>\<open>update_layer\<close> the layout images (\<^verbatim>\<open>_KIRI_/pcb/\<close>); the code
  itself never reads which of the two an instance shows.

  \<open>removeEmbed\<close> also detaches the embedded element and its listener, which is not part
  of this state. \<open>onUpdatedCTM\<close> is the callback given to the library in
  \<^verbatim>\<open>createNewEmbed\<close>; a call through a \<^verbatim>\<open>null\<close> instance raises a TypeError.
  \<open>createNewEmbed3d\<close> destroys a live instance.
\<close>

datatype embed_kind = Schematic | Layout

datatype ('z, 'p) pz_call = Zoom "'z option" | Pan "'p option"

record ('z, 'p) panzoom =
  panZoom_instance :: "(embed_kind \<times> 'z \<times> 'p) option"
  sch_current_zoom :: "'z option"
  sch_old_zoom :: "'z option"
  sch_current_pan :: "'p option"
  pcb_current_zoom :: "'z option"
  pcb_old_zoom :: "'z option"
  pcb_current_pan :: "'p option"
  calls :: "('z, 'p) pz_call list"

definition removeEmbed ::
  "string option \<Rightarrow> string option \<Rightarrow> ('z, 'p) panzoom \<Rightarrow> ('z, 'p) panzoom" where
  "removeEmbed the_old_view the_current_view pz =
     (case panZoom_instance pz of
        None \<Rightarrow> pz
      | Some (kind, zoom, pan) \<Rightarrow>
          (let pz1 =
             (if the_old_view \<noteq> Some ''show_3d''
              then (if the_current_view = Some ''show_pcb''
                    then pz\<lparr>sch_current_zoom := Some zoom, sch_current_pan := Some pan,
                            sch_old_zoom := None\<rparr>
                    else if the_current_view = Some ''show_sch''
                    then pz\<lparr>pcb_current_zoom := Some zoom, pcb_current_pan := Some pan,
                            pcb_old_zoom := None\<rparr>
                    else pz)
              else pz)
           in pz1\<lparr>panZoom_instance := None\<rparr>))"

definition createNewEmbed ::
  "embed_kind \<Rightarrow> 'z \<times> 'p \<Rightarrow> ('z, 'p) panzoom \<Rightarrow> ('z, 'p) panzoom" where
  "createNewEmbed kind fresh pz = pz\<lparr>panZoom_instance := Some (kind, fst fresh, snd fresh)\<rparr>"

definition createNewEmbed3d :: "('z, 'p) panzoom \<Rightarrow> ('z, 'p) panzoom" where
  "createNewEmbed3d pz = pz\<lparr>panZoom_instance := None\<rparr>"

definition onUpdatedCTM ::
  "string option \<Rightarrow> ('z, 'p) panzoom \<Rightarrow> ('z, 'p) panzoom outcome" where
  "onUpdatedCTM the_current_view pz =
     (if the_current_view = Some ''show_sch''
      then (if sch_current_zoom pz \<noteq> sch_old_zoom pz
            then (case panZoom_instance pz of
                    None \<Rightarrow> Threw pz
                  | Some i \<Rightarrow>
                      Done (pz\<lparr>calls := calls pz @ [Zoom (sch_current_zoom pz),
                                                      Pan (sch_current_pan pz)],
                              sch_old_zoom := sch_current_zoom pz\<rparr>))
            else Done pz)
      else (if pcb_current_zoom pz \<noteq> pcb_old_zoom pz
            then (case panZoom_instance pz of
                    None \<Rightarrow> Threw pz
                  | Some i \<Rightarrow>
                      Done (pz\<lparr>calls := calls pz @ [Zoom (pcb_current_zoom pz),
                                                      Pan (pcb_current_pan pz)],
                              pcb_old_zoom := pcb_current_zoom pz\<rparr>))
            else Done pz))"

text \<open>
  The closing step of \<^verbatim>\<open>update_page\<close> (lines 645-648) and of \<^verbatim>\<open>update_layer\<close> (lines
  1025-1028), and that of \<^verbatim>\<open>update_3d\<close> (lines 563-566): when the view has changed, the
  old embed is removed and a new one created. \<open>fresh\<close> is the zoom and pan of a newly
  created instance.
\<close>

definition swap_embed ::
  "embed_kind \<Rightarrow> 'z \<times> 'p \<Rightarrow> string option \<Rightarrow> string option \<Rightarrow> ('z, 'p) panzoom
     \<Rightarrow> ('z, 'p) panzoom" where
  "swap_embed kind fresh the_old_view the_current_view pz =
     (if the_current_view \<noteq> the_old_view
      then createNewEmbed kind fresh (removeEmbed the_old_view the_current_view pz)
      else pz)"

definition swap_embed3d ::
  "string option \<Rightarrow> string option \<Rightarrow> ('z, 'p) panzoom \<Rightarrow> ('z, 'p) panzoom" where
  "swap_embed3d the_old_view the_current_view pz =
     (if the_current_view \<noteq> the_old_view
      then createNewEmbed3d (removeEmbed the_old_view the_current_view pz)
      else pz)"

text \<open>
  The saved state of the schematic view and of the layout (PCB) view, the name each view
  has in \<^verbatim>\<open>current_view\<close>, and the saved state by view.
\<close>

definition sch_saved :: "('z, 'p) panzoom \<Rightarrow> 'z option \<times> 'p option \<times> 'z option" where
  "sch_saved pz = (sch_current_zoom pz, sch_current_pan pz, sch_old_zoom pz)"

definition pcb_saved :: "('z, 'p) panzoom \<Rightarrow> 'z option \<times> 'p option \<times> 'z option" where
  "pcb_saved pz = (pcb_current_zoom pz, pcb_current_pan pz, pcb_old_zoom pz)"




definition example_panzoom :: "(nat, int \<times> int) panzoom" where
  "example_panzoom =
     \<lparr>panZoom_instance = Some (Schematic, 3, (10, - 4)),
      sch_current_zoom = None, sch_old_zoom = None, sch_current_pan = None,
      pcb_current_zoom = None, pcb_old_zoom = None, pcb_current_pan = None,
      calls = []\<rparr>"

definition example_layout_panzoom :: "(nat, int \<times> int) panzoom" where
  "example_layout_panzoom = example_panzoom\<lparr>panZoom_instance := Some (Layout, 2, (5, 7))\<rparr>"


section \<open>Probing a URL (assets/kiri.js, lines 454-472)\<close>

text \<open>
  \<^verbatim>\<open>if_url_exists\<close> sends an asynchronous GET request whose only handler is
  \<^verbatim>\<open>onprogress\<close>. The handler reads \<^verbatim>\<open>event.target.status\<close> (an unsigned number),
  takes the first character of its decimal representation, aborts the request and calls
  the callback with \<^verbatim>\<open>true\<close> for the character \<^verbatim>\<open>'2'\<close> and \<^verbatim>\<open>false\<close> otherwise.

  Which events the browser delivers is its part: the model takes the statuses carried by
  the progress events the browser would deliver were the request never aborted, and returns
  the arguments of the callback's invocations, in order. The abort in the handler ends the
  request, so only the first progress event reaches the handler.
\<close>

definition digit_char :: "nat \<Rightarrow> char" where
  "digit_char d = char_of (48 + d)"

fun toString :: "nat \<Rightarrow> string" where
  "toString n =
     (if n < 10 then [digit_char n] else toString (n div 10) @ [digit_char (n mod 10)])"

definition js_char_at :: "string \<Rightarrow> nat \<Rightarrow> char option" where
  "js_char_at s k = (if k < length s then Some (s ! k) else None)"

definition onprogress :: "nat \<Rightarrow> bool" where
  "onprogress status =
     (let statusFirstNumber = js_char_at (toString status) 0
      in if statusFirstNumber = Some (CHR ''2'') then True else False)"

fun if_url_exists :: "nat list \<Rightarrow> bool list" where
  "if_url_exists [] = []"
| "if_url_exists (status # later) = [onprogress status]"

text \<open>The first decimal digit of a number, as arithmetic: the claim's reading of the status.\<close>

fun first_digit :: "nat \<Rightarrow> nat" where
  "first_digit n = (if n < 10 then n else first_digit (n div 10))"

section \<open>Sheet list, page and layer selection, view modes (assets/kiri.js, lines 296-373, 543-555, 593-774, 846-1056, 1145-1212)\<close>

subsection \<open>JavaScript strings and arrays\<close>

text \<open>
  \<^verbatim>\<open>s.split(c)\<close> for a one-character separator: the pieces between the separators, at
  least one. \<^verbatim>\<open>Array.from(new Set(xs))\<close> keeps the first occurrence of every element, in
  insertion order. \<^verbatim>\<open>xs.toString()\<close> joins the elements with commas.
  \<^verbatim>\<open>s.replace(pat, rep)\<close> with a string pattern replaces the first occurrence.
\<close>

fun split_on :: "char \<Rightarrow> string \<Rightarrow> string list" where
  "split_on c [] = [[]]"
| "split_on c (x # xs) =
     (if x = c then [] # split_on c xs
      else (case split_on c xs of [] \<Rightarrow> [[x]] | p # ps \<Rightarrow> (x # p) # ps))"

definition push_new :: "'a \<Rightarrow> 'a list \<Rightarrow> 'a list" where
  "push_new x acc = (if x \<in> set acc then acc else acc @ [x])"

definition from_set :: "'a list \<Rightarrow> 'a list" where
  "from_set xs = fold push_new xs []"

fun array_toString :: "string list \<Rightarrow> string" where
  "array_toString [] = []"
| "array_toString [x] = x"
| "array_toString (x # y # ys) = x @ '','' @ array_toString (y # ys)"

fun replace_first :: "string \<Rightarrow> string \<Rightarrow> string \<Rightarrow> string" where
  "replace_first pat rep [] = (if pat = [] then rep else [])"
| "replace_first pat rep (x # xs) =
     (if take (length pat) (x # xs) = pat then rep @ drop (length pat) (x # xs)
      else x # replace_first pat rep xs)"

subsection \<open>Loading and parsing the sheet files\<close>

text \<open>
  \<^verbatim>\<open>loadFile\<close> performs a synchronous request and returns the response text for status
  200 and \<^verbatim>\<open>null\<close> otherwise; the server's answer (status and body) is its argument here.
  \<open>sheets_list\<close> is the computation of \<^verbatim>\<open>update_sheets_list\<close> between the two loads
  and the rendering (lines 695-714), on the two response texts.
\<close>

definition loadFile :: "nat \<times> string \<Rightarrow> string option" where
  "loadFile response = (if fst response = 200 then Some (snd response) else None)"

definition nonempty_lines :: "string \<Rightarrow> string list" where
  "nonempty_lines text = filter (\<lambda>a. a \<noteq> []) (split_on (CHR 0x0A) text)"

definition first_field :: "string \<Rightarrow> string" where
  "first_field d = (case split_on (CHR ''|'') d of [] \<Rightarrow> [] | p # ps \<Rightarrow> p)"

definition sheets_list :: "string \<Rightarrow> string \<Rightarrow> string list" where
  "sheets_list text1 text2 =
     (let data1 = nonempty_lines text1;
          data2 = nonempty_lines text2;
          sheets1 = map first_field data1;
          sheets2 = fold (\<lambda>d sheets. push_new (first_field d) sheets) data2 sheets1
      in from_set sheets2)"

subsection \<open>Radio lists\<close>

text \<open>
  A list of radio inputs (\<^verbatim>\<open>#pages_list input:radio[name='pages']\<close>, and the same for
  layers) is the list of its inputs with their \<^verbatim>\<open>id\<close>, \<^verbatim>\<open>value\<close> and \<^verbatim>\<open>checked\<close>.
  The inputs of one list form one radio group, so checking one unchecks the others.
  \<^verbatim>\<open>rs.index(rs.filter(':checked'))\<close> is the position of the first checked input and
  \<open>-1\<close> when none is checked. \<^verbatim>\<open>rs[k].checked = true\<close> raises a TypeError when \<open>k\<close>
  is no index of the list.
\<close>

record radio =
  rid :: string
  rvalue :: string
  rchecked :: bool

fun index_checked :: "radio list \<Rightarrow> int" where
  "index_checked [] = - 1"
| "index_checked (r # rs) =
     (if rchecked r then 0
      else (let k = index_checked rs in if k < 0 then - 1 else k + 1))"

definition set_checked :: "nat \<Rightarrow> radio list \<Rightarrow> radio list" where
  "set_checked k rs = map (\<lambda>(i, r). r\<lparr>rchecked := (i = k)\<rparr>) (zip [0..<length rs] rs)"

definition check_radio :: "int \<Rightarrow> radio list \<Rightarrow> radio list outcome" where
  "check_radio k rs =
     (if 0 \<le> k \<and> k < int (length rs) then Done (set_checked (nat k) rs) else Threw rs)"

definition js_id_at :: "radio list \<Rightarrow> int \<Rightarrow> string option" where
  "js_id_at rs k = (if 0 \<le> k \<and> k < int (length rs) then Some (rid (rs ! nat k)) else None)"

text \<open>
  \<^verbatim>\<open>$("...[value='v']").prop('checked', true)\<close> checks every input whose value is \<open>v\<close>,
  in document order. \<open>rendered\<close> is an input as the templates of lines 723-730 and
  911-918 create it, unchecked.
\<close>

definition check_by_value :: "string \<Rightarrow> radio list \<Rightarrow> radio list" where
  "check_by_value v rs =
     fold (\<lambda>i acc. if rvalue (rs ! i) = v then set_checked i acc else acc) [0..<length rs] rs"

definition rendered :: "string \<Rightarrow> string \<Rightarrow> radio" where
  "rendered i v = \<lparr>rid = i, rvalue = v, rchecked = False\<rparr>"

subsection \<open>The page state\<close>

text \<open>
  The state holds the two radio lists, the three view-mode inputs \<^verbatim>\<open>show_sch\<close>,
  \<^verbatim>\<open>show_pcb\<close>, \<^verbatim>\<open>show_3d\<close>, the globals \<^verbatim>\<open>current_view\<close>, \<^verbatim>\<open>old_view\<close> and
  \<^verbatim>\<open>selected_sheet\<close> (\<open>None\<close> while never assigned), \<^verbatim>\<open>previous_selected_page\<close> and
  \<^verbatim>\<open>current_selected_page\<close>, and the pan/zoom state of the previous section. The
  functions below are the source's functions restricted to the statements that read or
  write this state; the statements left out build image paths, fill the embedded element,
  set label classes and display styles and update the fullscreen label, and write none of
  these variables. An outcome \<open>Threw\<close> is an exception raised by one of the modelled
  statements, with the state at that moment.

  The environment holds the server's answers for the \<^verbatim>\<open>sch_sheets\<close> files of the two
  selected commits and, for the layers, the table that lines 878-923 of
  \<^verbatim>\<open>update_layers_list\<close> build from the two \<^verbatim>\<open>pcb_layers\<close> files: the padded id and the
  joined layer names of every input that would be rendered, \<open>None\<close> when a file fails to
  load (\<^verbatim>\<open>null.split\<close> raises). It also holds the zoom and pan of a newly created
  pan/zoom instance.

  Assigning \<^verbatim>\<open>innerHTML\<close> of the list's form replaces the inputs of the list by those the
  browser parses from the markup. For names without markup characters (quotes, \<^verbatim>\<open>&\<close>,
  \<^verbatim>\<open><\<close>, \<^verbatim>\<open>>\<close>, backslash, line breaks, form feed and NUL) these are the
  rendered inputs, one for each name, none checked, and the attribute selectors of lines
  763 and 951 select by value. When a name has a character that HTML or jQuery's selector
  syntax reads as markup, what the browser and jQuery make of lines 751-773 (lines 938-967
  for the layers) is not modelled: the environment gives the resulting inputs, and whether
  an exception was raised. The jQuery object obtained before the assignment still holds
  the old, detached inputs, so the writes to it of lines 767, 772 and 955 do not reach the
  new list.
\<close>

definition plain_name :: "string \<Rightarrow> bool" where
  "plain_name v = list_all (\<lambda>c. c \<notin> set [CHR 0x22, CHR 0x26, CHR 0x27, CHR 0x3C, CHR 0x3E,
                                             CHR 0x5C, CHR 0x0A, CHR 0x0C, CHR 0x0D, CHR 0x00]) v"

text \<open>
  The selector of line 951 is built without quotes, so its value must be an identifier;
  \<open>selector_ident\<close> accepts a letter followed by letters, digits, \<open>-\<close> and \<open>_\<close>.
\<close>

definition is_letter :: "char \<Rightarrow> bool" where
  "is_letter c = (c \<in> set ''abcdefghijklmnopqrstuvwxyzABCDEFGHIJKLMNOPQRSTUVWXYZ'')"

definition selector_ident :: "string \<Rightarrow> bool" where
  "selector_ident v =
     (case v of
        [] \<Rightarrow> False
      | c # cs \<Rightarrow> is_letter c \<and> list_all (\<lambda>d. is_letter d \<or> d \<in> set ''0123456789-_'') cs)"

record ('z, 'p) files =
  sch_sheets_1 :: "nat \<times> string"
  sch_sheets_2 :: "nat \<times> string"
  pcb_layers :: "(string \<times> string) list option"
  fresh_instance :: "'z \<times> 'p"
  markup_pages :: "radio list \<Rightarrow> string list \<Rightarrow> radio list outcome"
  markup_layers :: "radio list \<Rightarrow> (string \<times> string) list \<Rightarrow> radio list outcome"

record ('z, 'p) page_state =
  pages :: "radio list"
  layers :: "radio list"
  selected_sheet :: "string option"
  previous_selected_page :: int
  current_selected_page :: int
  current_view :: "string option"
  old_view :: "string option"
  show_sch_checked :: bool
  show_pcb_checked :: bool
  show_3d_checked :: bool
  embed :: "('z, 'p) panzoom"

fun and_then :: "'a outcome \<Rightarrow> ('a \<Rightarrow> 'a outcome) \<Rightarrow> 'a outcome" where
  "and_then (Done s) f = f s"
| "and_then (Threw s) f = Threw s"

text \<open>
  \<^verbatim>\<open>update_sheets_list\<close>. The global \<^verbatim>\<open>selected_sheet\<close> is assigned only at line 686,
  when a page is checked; reading it at line 760 while it was never assigned raises a
  ReferenceError, after the list was replaced. With an empty new list
  \<^verbatim>\<open>form_inputs_html\<close> is still \<^verbatim>\<open>undefined\<close> at line 751, which raises a TypeError
  before the list is touched.
\<close>

definition update_sheets_list ::
  "('z, 'p) files \<Rightarrow> ('z, 'p) page_state \<Rightarrow> ('z, 'p) page_state outcome" where
  "update_sheets_list env s =
     (let s1 = (case js_id_at (pages s) (index_checked (pages s)) of
                  Some i \<Rightarrow> s\<lparr>selected_sheet := Some i\<rparr>
                | None \<Rightarrow> s)
      in case loadFile (sch_sheets_1 env) of
           None \<Rightarrow> Threw s1
         | Some text1 \<Rightarrow>
        (case loadFile (sch_sheets_2 env) of
           None \<Rightarrow> Threw s1
         | Some text2 \<Rightarrow>
        (let new_sheets_list = sheets_list text1 text2;
             current_sheets_list = map rid (pages s1)
         in if array_toString current_sheets_list = array_toString new_sheets_list then Done s1
            else if new_sheets_list = [] then Threw s1
            else if \<not> list_all plain_name (new_sheets_list @ current_sheets_list)
            then (case markup_pages env (pages s1) new_sheets_list of
                    Done p \<Rightarrow> Done (s1\<lparr>pages := p\<rparr>)
                  | Threw p \<Rightarrow> Threw (s1\<lparr>pages := p\<rparr>))
            else
              (let s2 = s1\<lparr>pages := map (\<lambda>sheet. rendered sheet sheet) new_sheets_list\<rparr>;
                   optionLabels = current_sheets_list
               in case selected_sheet s1 of
                    None \<Rightarrow> Threw s2
                  | Some v \<Rightarrow>
                      if v \<in> set optionLabels
                      then Done (s2\<lparr>pages := check_by_value v (pages s2)\<rparr>)
                      else if optionLabels = [] then Threw s2
                      else Done s2))))"

definition update_page ::
  "('z, 'p) files \<Rightarrow> ('z, 'p) page_state \<Rightarrow> ('z, 'p) page_state outcome" where
  "update_page env s =
     and_then (update_sheets_list env s) (\<lambda>s1.
     and_then
       (if previous_selected_page s1 > - 1
        then (case check_radio (previous_selected_page s1) (pages s1) of
                Done p \<Rightarrow> Done (s1\<lparr>pages := p, previous_selected_page := - 1\<rparr>)
              | Threw p \<Rightarrow> Threw s1)
        else Done s1) (\<lambda>s2.
     and_then
       (let selected_page = index_checked (pages s2)
        in if selected_page \<ge> 0 then Done (s2\<lparr>current_selected_page := selected_page\<rparr>)
           else (let s3 = s2\<lparr>previous_selected_page := current_selected_page s2\<rparr>
                 in case check_radio 0 (pages s3) of
                      Done p \<Rightarrow> Done (s3\<lparr>pages := p\<rparr>)
                    | Threw p \<Rightarrow> Threw s3)) (\<lambda>s4.
     Done (s4\<lparr>embed := swap_embed Schematic (fresh_instance env)
                            (old_view s4) (current_view s4) (embed s4)\<rparr>))))"

definition update_layers_list ::
  "('z, 'p) files \<Rightarrow> int \<Rightarrow> ('z, 'p) page_state \<Rightarrow> ('z, 'p) page_state outcome" where
  "update_layers_list env selected_layer_idx s =
     (let selected_layer = (case js_id_at (layers s) (index_checked (layers s)) of
                              Some i \<Rightarrow> i | None \<Rightarrow> [])
      in case pcb_layers env of
           None \<Rightarrow> Threw s
         | Some table \<Rightarrow>
        (let new_layers_list = map snd table;
             current_layers_list =
               map (\<lambda>opt. replace_first ''layer-'' [] (rvalue opt)) (layers s);
             optionLabels = map rid (layers s)
         in if array_toString current_layers_list = array_toString new_layers_list then Done s
            else if table = [] then Threw s
            else if \<not> (list_all plain_name (map fst table @ map snd table) \<and>
                        (selected_layer \<in> set optionLabels \<longrightarrow> selector_ident selected_layer))
            then (case markup_layers env (layers s) table of
                    Done l \<Rightarrow> Done (s\<lparr>layers := l\<rparr>)
                  | Threw l \<Rightarrow> Threw (s\<lparr>layers := l\<rparr>))
            else
              (let s1 = s\<lparr>layers := map (\<lambda>(id_pad, layer_names).
                                     rendered (''layer-'' @ id_pad) (''layer-'' @ layer_names))
                                   table\<rparr>
               in and_then
                    (if selected_layer \<in> set optionLabels
                     then Done (s1\<lparr>layers := check_by_value selected_layer (layers s1)\<rparr>)
                     else if optionLabels = [] then Threw s1
                     else Done s1) (\<lambda>s2.
                  and_then
                    (if selected_layer_idx \<ge> 0
                     then (case check_radio selected_layer_idx (layers s2) of
                             Done l \<Rightarrow> Done (s2\<lparr>layers := l\<rparr>)
                           | Threw l \<Rightarrow> Threw s2)
                     else Done s2) (\<lambda>s3.
                  if index_checked (layers s3) < 0
                  then (case check_radio 0 (layers s3) of
                          Done l \<Rightarrow> Done (s3\<lparr>layers := l\<rparr>)
                        | Threw l \<Rightarrow> Threw s3)
                  else Done s3)))))"

definition show_sch ::
  "('z, 'p) files \<Rightarrow> ('z, 'p) page_state \<Rightarrow> ('z, 'p) page_state outcome" where
  "show_sch env s =
     update_page env
       (s\<lparr>old_view := current_view s, current_view := Some ''show_sch'',
          show_sch_checked := True, show_pcb_checked := False, show_3d_checked := False\<rparr>)"

text \<open>
  \<^verbatim>\<open>update_layer\<close>: with no layer checked it checks the first one; when there is none,
  the \<^verbatim>\<open>catch\<close> block falls back to the schematic view and returns (lines 991-995).
  Otherwise the layer list is updated and the embed swapped.
\<close>

definition update_layer ::
  "('z, 'p) files \<Rightarrow> ('z, 'p) page_state \<Rightarrow> ('z, 'p) page_state outcome" where
  "update_layer env s =
     (let selected_layer = index_checked (layers s);
          swap = (\<lambda>t. Done (t\<lparr>embed := swap_embed Layout (fresh_instance env)
                                          (old_view t) (current_view t) (embed t)\<rparr>))
      in if selected_layer \<ge> 0
         then and_then (update_layers_list env selected_layer s) swap
         else (case check_radio 0 (layers s) of
                 Threw l \<Rightarrow> show_sch env s
               | Done l \<Rightarrow>
                   and_then (update_layers_list env (index_checked l) (s\<lparr>layers := l\<rparr>)) swap))"

definition show_pcb ::
  "('z, 'p) files \<Rightarrow> ('z, 'p) page_state \<Rightarrow> ('z, 'p) page_state outcome" where
  "show_pcb env s =
     update_layer env
       (s\<lparr>old_view := current_view s, current_view := Some ''show_pcb'',
          show_pcb_checked := True, show_sch_checked := False, show_3d_checked := False\<rparr>)"

definition update_3d :: "('z, 'p) page_state \<Rightarrow> ('z, 'p) page_state outcome" where
  "update_3d s =
     Done (s\<lparr>embed := swap_embed3d (old_view s) (current_view s) (embed s)\<rparr>)"

definition show_3d ::
  "('z, 'p) files \<Rightarrow> ('z, 'p) page_state \<Rightarrow> ('z, 'p) page_state outcome" where
  "show_3d env s =
     update_3d
       (s\<lparr>old_view := current_view s, current_view := Some ''show_3d'',
          show_3d_checked := True, show_pcb_checked := False, show_sch_checked := False\<rparr>)"

text \<open>
  The library calls \<^verbatim>\<open>onUpdatedCTM\<close> of the live instance when the transformation of the
  embedded image has changed.
\<close>

definition updated_CTM :: "('z, 'p) page_state \<Rightarrow> ('z, 'p) page_state outcome" where
  "updated_CTM s =
     (case onUpdatedCTM (current_view s) (embed s) of
        Done e \<Rightarrow> Done (s\<lparr>embed := e\<rparr>)
      | Threw e \<Rightarrow> Threw (s\<lparr>embed := e\<rparr>))"

text \<open>The index arithmetic of lines 301-309 and 340-348 (the same for pages and layers).\<close>

definition next_index :: "bool \<Rightarrow> radio list \<Rightarrow> int" where
  "next_index cycle rs =
     (let new_index = index_checked rs + 1
      in if new_index \<ge> int (length rs)
         then (if cycle then 0 else int (length rs) - 1)
         else new_index)"

definition preview_index :: "bool \<Rightarrow> radio list \<Rightarrow> int" where
  "preview_index cycle rs =
     (let new_index = index_checked rs - 1
      in if new_index < 0
         then (if cycle then int (length rs) - 1 else 0)
         else new_index)"

definition select_next_sch_or_pcb ::
  "bool \<Rightarrow> ('z, 'p) files \<Rightarrow> ('z, 'p) page_state \<Rightarrow> ('z, 'p) page_state outcome" where
  "select_next_sch_or_pcb cycle env s =
     (if show_sch_checked s
      then (case check_radio (next_index cycle (pages s)) (pages s) of
              Threw p \<Rightarrow> Threw s
            | Done p \<Rightarrow> update_page env (s\<lparr>pages := p\<rparr>))
      else (case check_radio (next_index cycle (layers s)) (layers s) of
              Threw l \<Rightarrow> Threw s
            | Done l \<Rightarrow> update_layer env (s\<lparr>layers := l\<rparr>)))"

definition select_preview_sch_or_pcb ::
  "bool \<Rightarrow> ('z, 'p) files \<Rightarrow> ('z, 'p) page_state \<Rightarrow> ('z, 'p) page_state outcome" where
  "select_preview_sch_or_pcb cycle env s =
     (if current_view s = Some ''show_sch''
      then (case check_radio (preview_index cycle (pages s)) (pages s) of
              Threw p \<Rightarrow> Threw s
            | Done p \<Rightarrow>
                and_then (update_page env (s\<lparr>pages := p\<rparr>)) (update_sheets_list env))
      else if current_view s = Some ''show_pcb''
      then (case check_radio (preview_index cycle (layers s)) (layers s) of
              Threw l \<Rightarrow> Threw s
            | Done l \<Rightarrow> update_layer env (s\<lparr>layers := l\<rparr>))
      else Done s)"

subsection \<open>Vocabulary of the statements about sheets and selections\<close>

text \<open>
  A file is the text of its lines, joined with newlines; no line has a newline in it.
  \<open>line_ids\<close> is what the claim calls the sheet IDs of one file: for each non-empty
  line, the text before its first \<open>|\<close>. \<open>dedup\<close> removes repetitions, keeping first
  occurrences, and \<open>merged_ids\<close> is the list the claim describes: the IDs of the first
  file, then those of the second file that the first does not have, each once.
  \<open>comma_joined\<close> is the text of a list with commas between its elements.
  None of these uses a function of the model above.
\<close>

fun join_lines :: "string list \<Rightarrow> string" where
  "join_lines [] = []"
| "join_lines [l] = l"
| "join_lines (l # m # ls) = l @ CHR 0x0A # join_lines (m # ls)"


fun dedup :: "'a list \<Rightarrow> 'a list" where
  "dedup [] = []"
| "dedup (x # xs) = x # dedup (filter (\<lambda>y. y \<noteq> x) xs)"



text \<open>
  \<open>sheets_unchanged\<close> and \<open>layers_unchanged\<close> say that the files of the selected
  commits give the list that is displayed.
\<close>

definition sheets_unchanged :: "('z, 'p) files \<Rightarrow> ('z, 'p) page_state \<Rightarrow> bool" where
  "sheets_unchanged env s =
     (case (loadFile (sch_sheets_1 env), loadFile (sch_sheets_2 env)) of
        (Some text1, Some text2) \<Rightarrow> sheets_list text1 text2 = map rid (pages s)
      | _ \<Rightarrow> False)"

definition layers_unchanged :: "('z, 'p) files \<Rightarrow> ('z, 'p) page_state \<Rightarrow> bool" where
  "layers_unchanged env s =
     (case pcb_layers env of
        Some table \<Rightarrow>
          map snd table = map (\<lambda>opt. replace_first ''layer-'' [] (rvalue opt)) (layers s)
      | None \<Rightarrow> False)"

definition view_fields ::
  "('z, 'p) page_state \<Rightarrow> string option \<times> string option \<times> bool \<times> bool \<times> bool" where
  "view_fields s =
     (current_view s, old_view s, show_sch_checked s, show_pcb_checked s, show_3d_checked s)"

subsection \<open>Example pages\<close>

definition mk_radios :: "string list \<Rightarrow> int \<Rightarrow> radio list" where
  "mk_radios names k =
     map (\<lambda>(i, n). \<lparr>rid = n, rvalue = n, rchecked = (int i = k)\<rparr>) (zip [0..<length names] names)"

text \<open>
  A server whose two sheet files list the sheets A, B and A, D, and which has two layers;
  a page showing these sheets with page \<open>k\<close> checked and a schematic embed zoomed to 3;
  a page still showing the sheets of other commits.
\<close>

definition example_files :: "(nat, int \<times> int) files" where
  "example_files =
     \<lparr>sch_sheets_1 = (200, join_lines [''A|x'', ''B|y'', '''']),
      sch_sheets_2 = (200, join_lines [''A|x'', ''D|y'', '''']),
      pcb_layers = Some [(''00'', ''F.Cu''), (''31'', ''B.Cu'')],
      fresh_instance = (1, (0, 0)),
      markup_pages = (\<lambda>old new. Done old),
      markup_layers = (\<lambda>old new. Done old)\<rparr>"

definition example_page :: "int \<Rightarrow> (nat, int \<times> int) page_state" where
  "example_page k =
     \<lparr>pages = mk_radios [''A'', ''B'', ''D''] k,
      layers = [\<lparr>rid = ''layer-00'', rvalue = ''layer-F.Cu'', rchecked = True\<rparr>,
                \<lparr>rid = ''layer-31'', rvalue = ''layer-B.Cu'', rchecked = False\<rparr>],
      selected_sheet = None,
      previous_selected_page = - 1, current_selected_page = k,
      current_view = Some ''show_sch'', old_view = Some ''show_sch'',
      show_sch_checked = True, show_pcb_checked = False, show_3d_checked = False,
      embed = example_panzoom\<rparr>"

definition stale_page :: "(nat, int \<times> int) page_state" where
  "stale_page = (example_page 2)\<lparr>pages := mk_radios [''A'', ''B'', ''C'', ''D''] 2\<rparr>"

text \<open>
  The page after \<open>update_page\<close> has replaced the stale list: sheet \<open>C\<close> is gone, the
  first page is checked and the old index is remembered for reversion.
\<close>

definition pending_page :: "(nat, int \<times> int) page_state" where
  "pending_page =
     (example_page 0)\<lparr>selected_sheet := Some ''C'', previous_selected_page := 2,
                       current_selected_page := 2\<rparr>"

definition no_layers_page :: "(nat, int \<times> int) page_state" where
  "no_layers_page = (example_page 0)\<lparr>layers := []\<rparr>"

definition layers_page :: "(nat, int \<times> int) page_state" where
  "layers_page =
     (example_page 0)\<lparr>current_view := Some ''show_pcb'', show_sch_checked := False,
                       show_pcb_checked := True, embed := example_layout_panzoom\<rparr>"

text \<open>A page in the PCB view that still shows three layers, the second one checked.\<close>

definition stale_layers_page :: "(nat, int \<times> int) page_state" where
  "stale_layers_page =
     layers_page\<lparr>layers :=
       [\<lparr>rid = ''layer-00'', rvalue = ''layer-F.Cu'', rchecked = False\<rparr>,
        \<lparr>rid = ''layer-31'', rvalue = ''layer-B.Cu'', rchecked = True\<rparr>,
        \<lparr>rid = ''layer-44'', rvalue = ''layer-Edge.Cuts'', rchecked = False\<rparr>]\<rparr>"



section \<open>Properties of the commit navigation\<close>

lemma filter_two:
  assumes "i < j" "j < n"
  shows "filter (\<lambda>k. k = i \<or> k = j) [0..<n] = [i, j]"
proof -
  let ?f = "filter (\<lambda>k. k = i \<or> k = j) [0..<n]"
  have "sorted ?f" by (simp add: sorted_wrt_filter)
  moreover have "distinct ?f" by simp
  moreover have "set ?f = set [i, j]" using assms by auto
  moreover have "sorted [i, j]" "distinct [i, j]" using assms by auto
  ultimately show ?thesis by (metis sorted_distinct_set_unique)
qed

lemma length_two_checked: "length (two_checked n i j) = n"
  by (simp add: two_checked_def)

lemma nth_two_checked: "k < n \<Longrightarrow> two_checked n i j ! k = (k = i \<or> k = j)"
  by (simp add: two_checked_def)

lemma two_checkedI:
  assumes "\<forall>k<length cs. cs ! k = (k = i \<or> k = j)"
  shows "cs = two_checked (length cs) i j"
  using assms by (intro nth_equalityI) (simp_all add: length_two_checked nth_two_checked)

lemma scan_checked_two:
  assumes "i < j" "j < n"
  shows "scan_checked (two_checked n i j) = [i, j]"
proof -
  have "scan_checked (two_checked n i j) = filter (\<lambda>k. k = i \<or> k = j) [0..<n]"
    unfolding scan_checked_def length_two_checked
    by (rule filter_cong) (simp_all add: nth_two_checked)
  then show ?thesis using assms by (simp add: filter_two)
qed

lemma js_get_two [simp]:
  "js_get [a, b] 0 = a" "js_get [a, b] (Suc 0) = b" "js_get [a, b] 1 = b"
  by (simp_all add: js_get_def)

lemma js_set_two [simp]:
  "js_set [a, b] 0 v = [v, b]" "js_set [a, b] (Suc 0) v = [a, v]" "js_set [a, b] 1 v = [a, v]"
  by (simp_all add: js_set_def)

lemma js_cmp_Some [simp]: "js_cmp r (Some x) (Some y) = r x y"
  by (simp add: js_cmp_def)

lemma js_of_two [simp]: "js_of [i, j] = [Some (int i), Some (int j)]"
  by (simp add: js_of_def)

text \<open>Both closing loops on a well-formed selection: the old pair is cleared, the new pair set.\<close>

lemma update_selected_two:
  assumes "i < j" "j < n" "0 \<le> a" "a < int n" "0 \<le> b" "b < int n"
  shows "update_selected (two_checked n i j) [i, j] [Some a, Some b] =
           Done (two_checked n (nat a) (nat b))"
proof -
  have u: "uncheck_all [i, j] (two_checked n i j) = replicate n False"
    using assms(1,2)
    by (intro nth_equalityI) (auto simp: length_two_checked nth_two_checked nth_list_update)
  have c: "(replicate n False)[nat a := True, nat b := True] = two_checked n (nat a) (nat b)"
    using assms(3-6)
    by (intro nth_equalityI) (auto simp: length_two_checked nth_two_checked nth_list_update)
  show ?thesis
    unfolding update_selected_def u using assms(3-6) c
    by (simp add: upt_rec)
qed

lemma select_next_commit_two:
  assumes "i < j" "j < n"
  shows "select_next_commit (two_checked n i j) =
           Done (two_checked n (min (i + 1) (n - 2)) (min (j + 1) (n - 1)))"
proof -
  have "nat (int n - 2) = n - 2" "nat (int n - 1) = n - 1"
    "nat (int i + 1) = i + 1" "nat (int j + 1) = j + 1"
    by simp_all
  then show ?thesis
    unfolding select_next_commit_def using assms
    by (simp add: scan_checked_two length_two_checked Let_def update_selected_two min_def)
       (auto intro!: arg_cong2[of _ _ _ _ "two_checked n"])
qed

lemma select_next_2_commits_two:
  assumes "i < j" "j < n"
  shows "select_next_2_commits (two_checked n i j) =
           Done (if j + 1 < n then two_checked n i (j + 1)
                 else two_checked n (min (i + 1) (n - 2)) (n - 1))"
proof -
  have "nat (int n - 2) = n - 2" "nat (int n - 1) = n - 1"
    "nat (int i + 1) = i + 1" "nat (int j + 1) = j + 1"
    by simp_all
  then show ?thesis
    unfolding select_next_2_commits_def using assms
    by (simp add: scan_checked_two length_two_checked Let_def update_selected_two min_def)
       (auto intro!: arg_cong2[of _ _ _ _ "two_checked n"])
qed

lemma select_previows_commit_two:
  assumes "i < j" "j < n"
  shows "select_previows_commit (two_checked n i j) =
           Done (two_checked n (i - 1) (max (j - 1) 1))"
proof -
  have "nat (int i - 1) = i - 1" "nat (int j - 1) = j - 1"
    by simp_all
  then show ?thesis
    unfolding select_previows_commit_def using assms
    by (simp add: scan_checked_two length_two_checked Let_def update_selected_two max_def)
       (auto intro!: arg_cong2[of _ _ _ _ "two_checked n"])
qed

lemma select_previows_2_commits_two:
  assumes "i < j" "j < n"
  shows "select_previows_2_commits (two_checked n i j) =
           Done (if i + 1 < j then two_checked n i (j - 1)
                 else if 0 < i then two_checked n (i - 1) i
                 else two_checked n 0 1)"
proof -
  have "nat (int i - 1) = i - 1" "nat (int j - 1) = j - 1"
    by simp_all
  then show ?thesis
    unfolding select_previows_2_commits_def using assms
    by (simp add: scan_checked_two length_two_checked Let_def update_selected_two)
       (auto intro!: arg_cong2[of _ _ _ _ "two_checked n"])
qed

lemma selection_example:
  "\<forall>k<length [False, True, False, True, False].
     [False, True, False, True, False] ! k = (k = 1 \<or> k = 3)"
  by (simp add: nth_Cons' less_Suc_eq numeral_eq_Suc All_less_Suc)

text \<open>
  Claim C1. For every commit checkbox list of length \<open>n \<ge> 2\<close> whose checked entries are
  exactly the two indices \<open>i < j\<close>, \<open>select_next_commit\<close> returns normally and
  leaves checked exactly the entries \<open>min (i + 1) (n - 2)\<close> and \<open>min (j + 1) (n - 1)\<close>:
  both selections move one position down the list, the second clamped at the last position
  and the first at the position before it.
\<close>

theorem select_next_commit_advances:
  assumes "i < j" and "j < length commits"
    and "\<forall>k<length commits. commits ! k = (k = i \<or> k = j)"
  shows "select_next_commit commits =
           Done (two_checked (length commits)
                  (min (i + 1) (length commits - 2)) (min (j + 1) (length commits - 1)))"
proof -
  have "commits = two_checked (length commits) i j"
    using assms(3) by (rule two_checkedI)
  then show ?thesis
    using select_next_commit_two [OF assms(1,2)] by simp
qed

theorem select_next_commit_advances_witness:
  "select_next_commit [False, True, False, True, False] =
     Done [False, False, True, False, True]"
  using select_next_commit_advances [of 1 3 "[False, True, False, True, False]"]
    selection_example
  by (simp add: two_checked_def upt_rec)

text \<open>
  Claim C2. For every commit checkbox list of length \<open>n \<ge> 2\<close> whose checked entries are
  exactly \<open>i < j\<close>, \<open>select_next_2_commits\<close> returns normally; when \<open>j + 1 < n\<close> it
  leaves checked \<open>i\<close> and \<open>j + 1\<close>; when the second selection would pass the end it
  leaves checked \<open>n - 1\<close> and \<open>min (i + 1) (n - 2)\<close> (the first selection advances when
  it can). In both cases the final first index is strictly below the final second index
  and at most \<open>n - 2\<close>.
\<close>

theorem select_next_2_commits_advances:
  assumes "i < j" and "j < length commits"
    and "\<forall>k<length commits. commits ! k = (k = i \<or> k = j)"
  shows "select_next_2_commits commits =
           (if j + 1 < length commits
            then Done (two_checked (length commits) i (j + 1))
            else Done (two_checked (length commits)
                        (min (i + 1) (length commits - 2)) (length commits - 1)))
         \<and> (if j + 1 < length commits then i else min (i + 1) (length commits - 2))
             < (if j + 1 < length commits then j + 1 else length commits - 1)
         \<and> (if j + 1 < length commits then i else min (i + 1) (length commits - 2))
             \<le> length commits - 2"
proof -
  have "commits = two_checked (length commits) i j"
    using assms(3) by (rule two_checkedI)
  then have "select_next_2_commits commits =
           (if j + 1 < length commits
            then Done (two_checked (length commits) i (j + 1))
            else Done (two_checked (length commits)
                        (min (i + 1) (length commits - 2)) (length commits - 1)))"
    using select_next_2_commits_two [OF assms(1,2)] by simp
  moreover have "(if j + 1 < length commits then i else min (i + 1) (length commits - 2))
             < (if j + 1 < length commits then j + 1 else length commits - 1)"
    using assms(1,2) by auto
  moreover have "(if j + 1 < length commits then i else min (i + 1) (length commits - 2))
             \<le> length commits - 2"
    using assms(1,2) by auto
  ultimately show ?thesis by blast
qed

theorem select_next_2_commits_advances_witness:
  "select_next_2_commits [False, True, False, True, False] =
     Done [False, True, False, False, True]"
  using select_next_2_commits_advances [of 1 3 "[False, True, False, True, False]"]
    selection_example
  by (simp add: two_checked_def upt_rec)

text \<open>
  Claim C8. Each of the four navigation functions preserves the well-formedness of the
  selection: from a list of length \<open>n \<ge> 2\<close> whose checked entries are exactly
  \<open>i < j\<close>, the function returns normally, the list keeps its length, and its checked
  entries are exactly two indices \<open>i' < j' \<le> n - 1\<close>.
\<close>

theorem navigation_preserves_selection:
  assumes "i < j" and "j < length commits"
    and "\<forall>k<length commits. commits ! k = (k = i \<or> k = j)"
  shows "(\<exists>i' j'. i' < j' \<and> j' < length commits \<and>
            select_next_2_commits commits = Done (two_checked (length commits) i' j'))
       \<and> (\<exists>i' j'. i' < j' \<and> j' < length commits \<and>
            select_next_commit commits = Done (two_checked (length commits) i' j'))
       \<and> (\<exists>i' j'. i' < j' \<and> j' < length commits \<and>
            select_previows_2_commits commits = Done (two_checked (length commits) i' j'))
       \<and> (\<exists>i' j'. i' < j' \<and> j' < length commits \<and>
            select_previows_commit commits = Done (two_checked (length commits) i' j'))"
proof -
  let ?n = "length commits"
  have c: "commits = two_checked ?n i j"
    using assms(3) by (rule two_checkedI)
  have "\<exists>i' j'. i' < j' \<and> j' < ?n \<and>
          select_next_2_commits (two_checked ?n i j) = Done (two_checked ?n i' j')"
  proof (cases "j + 1 < ?n")
    case True
    with assms(1,2) show ?thesis
      by (intro exI[of _ i] exI[of _ "j + 1"]) (simp add: select_next_2_commits_two)
  next
    case False
    with assms(1,2) show ?thesis
      by (intro exI[of _ "min (i + 1) (?n - 2)"] exI[of _ "?n - 1"])
         (auto simp: select_next_2_commits_two)
  qed
  moreover have "\<exists>i' j'. i' < j' \<and> j' < ?n \<and>
          select_next_commit (two_checked ?n i j) = Done (two_checked ?n i' j')"
    using assms(1,2)
    by (intro exI[of _ "min (i + 1) (?n - 2)"] exI[of _ "min (j + 1) (?n - 1)"])
       (auto simp: select_next_commit_two)
  moreover have "\<exists>i' j'. i' < j' \<and> j' < ?n \<and>
          select_previows_2_commits (two_checked ?n i j) = Done (two_checked ?n i' j')"
  proof -
    consider "i + 1 < j" | "i + 1 = j" "0 < i" | "i = 0" "j = 1"
      using assms(1) by linarith
    then show ?thesis
    proof cases
      case 1
      with assms(1,2) show ?thesis
        by (intro exI[of _ i] exI[of _ "j - 1"]) (auto simp: select_previows_2_commits_two)
    next
      case 2
      with assms(1,2) show ?thesis
        by (intro exI[of _ "i - 1"] exI[of _ i]) (auto simp: select_previows_2_commits_two)
    next
      case 3
      with assms(1,2) show ?thesis
        by (intro exI[of _ 0] exI[of _ 1]) (auto simp: select_previows_2_commits_two)
    qed
  qed
  moreover have "\<exists>i' j'. i' < j' \<and> j' < ?n \<and>
          select_previows_commit (two_checked ?n i j) = Done (two_checked ?n i' j')"
    using assms(1,2)
    by (intro exI[of _ "i - 1"] exI[of _ "max (j - 1) 1"])
       (auto simp: select_previows_commit_two)
  ultimately show ?thesis
    using c by metis
qed

theorem navigation_preserves_selection_witness:
  "(\<exists>i' j'. i' < j' \<and> j' < 5 \<and>
      select_next_2_commits [False, True, False, True, False] = Done (two_checked 5 i' j'))
   \<and> (\<exists>i' j'. i' < j' \<and> j' < 5 \<and>
      select_next_commit [False, True, False, True, False] = Done (two_checked 5 i' j'))
   \<and> (\<exists>i' j'. i' < j' \<and> j' < 5 \<and>
      select_previows_2_commits [False, True, False, True, False] = Done (two_checked 5 i' j'))
   \<and> (\<exists>i' j'. i' < j' \<and> j' < 5 \<and>
      select_previows_commit [False, True, False, True, False] = Done (two_checked 5 i' j'))"
  using navigation_preserves_selection [of 1 3 "[False, True, False, True, False]"]
    selection_example
  by (simp add: numeral_eq_Suc)


section \<open>Properties of the commits form\<close>

lemma length_uncheck_all [simp]: "length (uncheck_all ks cs) = length cs"
  by (induction ks arbitrary: cs) simp_all

lemma nth_uncheck_all:
  "k < length cs \<Longrightarrow> uncheck_all ks cs ! k = (cs ! k \<and> k \<notin> set ks)"
proof (induction ks arbitrary: cs)
  case Nil
  show ?case by simp
next
  case (Cons a ks)
  have "cs[a := False] ! k = (cs ! k \<and> k \<noteq> a)"
    using Cons.prems by (cases "a = k") simp_all
  then show ?case using Cons.IH [of "cs[a := False]"] Cons.prems by auto
qed

lemma uncheck_all_scan: "uncheck_all (scan_checked cs) cs = replicate (length cs) False"
  by (intro nth_equalityI) (auto simp: nth_uncheck_all scan_checked_def)

lemma count_checked_replicate [simp]: "count_checked (replicate n False) = 0"
  by (simp add: count_checked_def)

lemma count_checked_set_True: "count_checked (cs[k := True]) \<le> Suc (count_checked cs)"
proof (induction cs arbitrary: k)
  case Nil
  show ?case by simp
next
  case (Cons c cs)
  show ?case using Cons [of "k - 1"] by (cases k) (auto simp: count_checked_def)
qed

lemma count_checked_set_False: "count_checked (cs[k := False]) \<le> count_checked cs"
proof (induction cs arbitrary: k)
  case Nil
  show ?case by simp
next
  case (Cons c cs)
  show ?case using Cons [of "k - 1"] by (cases k) (auto simp: count_checked_def)
qed

lemma count_check_all:
  "count_checked (state_of (check_all vs cs)) \<le> count_checked cs + length vs"
proof (induction vs arbitrary: cs)
  case Nil
  show ?case by simp
next
  case (Cons v vs)
  show ?case
  proof (cases v)
    case None
    then show ?thesis by simp
  next
    case (Some k)
    have "count_checked (state_of (check_all vs (cs[nat k := True])))
            \<le> Suc (count_checked cs) + length vs"
      using Cons [of "cs[nat k := True]"] count_checked_set_True [of cs "nat k"] by linarith
    then show ?thesis using Some by simp
  qed
qed

lemma length_scan_checked: "length (scan_checked cs) = count_checked cs"
proof -
  have "filter (\<lambda>c. c) (map ((!) cs) [0..<length cs]) =
        map ((!) cs) (filter (\<lambda>i. cs ! i) [0..<length cs])"
    by (simp add: filter_map comp_def)
  then have "filter (\<lambda>c. c) cs = map ((!) cs) (scan_checked cs)"
    by (simp add: map_nth scan_checked_def)
  then show ?thesis by (simp add: count_checked_def)
qed

lemma count_update_selected:
  "count_checked (state_of (update_selected cs (scan_checked cs) nsc)) \<le> count_checked cs"
  using count_check_all [of "map (js_get nsc) [0..<length (scan_checked cs)]"
      "replicate (length cs) False"]
  by (simp add: update_selected_def uncheck_all_scan length_scan_checked)

lemma count_navigation:
  "count_checked (state_of (select_next_2_commits cs)) \<le> count_checked cs"
  "count_checked (state_of (select_next_commit cs)) \<le> count_checked cs"
  "count_checked (state_of (select_previows_2_commits cs)) \<le> count_checked cs"
  "count_checked (state_of (select_previows_commit cs)) \<le> count_checked cs"
  unfolding select_next_2_commits_def select_next_commit_def select_previows_2_commits_def
    select_previows_commit_def Let_def
  by (rule count_update_selected)+

lemma count_reset: "count_checked (state_of (reset_commits_selection cs)) \<le> 2"
  using count_check_all [of "[Some 0, Some 1]" "replicate (length cs) False"]
  by (simp add: reset_commits_selection_def)

lemma toggle_undone:
  assumes "count_checked cs \<le> 2" "k < length cs" "2 < count_checked (cs[k := \<not> cs ! k])"
  shows "user_toggle k cs = cs"
proof -
  have "\<not> cs ! k"
  proof
    assume "cs ! k"
    then have "cs[k := \<not> cs ! k] = cs[k := False]" by simp
    then show False using count_checked_set_False [of cs k] assms(1,3) by simp
  qed
  then have "cs[k := False] = cs"
    using assms(2) by (metis list_update_id)
  then show ?thesis using assms(2,3) by (simp add: user_toggle_def commits_change_def)
qed

lemma count_toggle:
  assumes "count_checked cs \<le> 2"
  shows "count_checked (user_toggle k cs) \<le> 2"
proof (cases "k < length cs \<and> 2 < count_checked (cs[k := \<not> cs ! k])")
  case True
  then show ?thesis using toggle_undone [OF assms] assms by simp
next
  case False
  then show ?thesis using assms by (auto simp: user_toggle_def commits_change_def)
qed

lemma count_form_step:
  assumes "count_checked cs \<le> 2"
  shows "count_checked (form_step ev cs) \<le> 2"
proof (cases ev)
  case (Toggle k)
  then show ?thesis using count_toggle [OF assms] by simp
next
  case Key_reset
  then show ?thesis using count_reset by simp
qed (use assms count_navigation [of cs] in auto)

text \<open>
  Claim C6. Starting from a commits form with at most two checked commits, every state
  reached by any sequence of user toggles (each followed by the change handler),
  navigation keys and resets has at most two checked commits. The handler, whenever the
  count is above two, unchecks the checkbox that was just changed; a toggle that brings
  the count above two is thereby undone.
\<close>

theorem at_most_two_commits_checked:
  assumes "count_checked commits \<le> 2"
  shows "count_checked (fold form_step events commits) \<le> 2
         \<and> (2 < count_checked cs \<longrightarrow> commits_change k cs = cs[k := False])
         \<and> (k < length commits \<and> 2 < count_checked (commits[k := \<not> commits ! k]) \<longrightarrow>
              user_toggle k commits = commits)"
proof -
  have "count_checked (fold form_step events commits) \<le> 2"
    using assms
  proof (induction events arbitrary: commits)
    case Nil
    then show ?case by simp
  next
    case (Cons ev events)
    then show ?case using count_form_step [of commits ev] by simp
  qed
  moreover have "2 < count_checked cs \<longrightarrow> commits_change k cs = cs[k := False]"
    by (simp add: commits_change_def)
  ultimately show ?thesis
    using toggle_undone [OF assms] by blast
qed

theorem at_most_two_commits_checked_witness:
  "count_checked (fold form_step [Toggle 2, Key_next, Toggle 0, Key_reset, Toggle 2]
     [True, True, False]) \<le> 2
   \<and> commits_change 2 [True, True, True] = [True, True, False]
   \<and> user_toggle 2 [True, True, False] = [True, True, False]"
proof -
  have h: "count_checked [True, True, False] \<le> 2" "2 < count_checked [True, True, True]"
    "2 < length [True, True, False]"
    "2 < count_checked ([True, True, False][2 := \<not> [True, True, False] ! 2])"
    by (simp_all add: count_checked_def)
  have u: "[True, True, True][2 := False] = [True, True, False]"
    by simp
  show ?thesis
    using at_most_two_commits_checked [OF h(1),
        of "[Toggle 2, Key_next, Toggle 0, Key_reset, Toggle 2]" "[True, True, True]" 2] h(2-4)
      u
    by metis
qed

section \<open>Properties of the commit click\<close>

lemma scan_graph_prefix:
  assumes "distinct graph" "h < length graph" "a < length graph" "b < length graph"
    and "n \<le> length graph"
  shows "fold (\<lambda>i (hash_idx, commit1_idx, commit2_idx).
             (if Some (graph ! i) = Some (graph ! h) then i else hash_idx,
              if Some (graph ! i) = Some (graph ! a) then i else commit1_idx,
              if Some (graph ! i) = Some (graph ! b) then i else commit2_idx))
          [0..<n] (0, 0, 0)
         = (if h < n then h else 0, if a < n then a else 0, if b < n then b else 0)"
  using assms(5)
proof (induction n)
  case 0
  then show ?case by simp
next
  case (Suc n)
  then have n: "n < length graph" by simp
  have eq: "\<And>k. k < length graph \<Longrightarrow> (graph ! n = graph ! k) = (n = k)"
    using assms(1) n by (simp add: nth_eq_iff_index_eq)
  show ?case
    using Suc assms(2-4) by (auto simp: eq)
qed

text \<open>In a graph without repeated hashes the loop finds the positions of the three hashes.\<close>

lemma scan_graph_distinct:
  assumes "distinct graph" "h < length graph" "a < length graph" "b < length graph"
  shows "scan_graph graph (Some (graph ! h)) (Some (graph ! a)) (Some (graph ! b)) = (h, a, b)"
  unfolding scan_graph_def using scan_graph_prefix [OF assms, of "length graph"] assms(2-4)
  by simp

text \<open>
  Reading the two commits back from the hidden inputs changes nothing when both are
  defined, which they are after a click on a commit of the graph when they were before.
\<close>

lemma read_back_defined:
  assumes "commit1 s = Some a" and "commit2 s = Some b"
  shows "read_back s = s"
  using assms by (simp add: read_back_def input_value_def)

lemma commit_click_read_back:
  assumes "commit1 s = Some a" and "commit2 s = Some b"
  shows "read_back (commit_click graph (Some h) s) = commit_click graph (Some h) s"
proof -
  obtain i j k where "scan_graph graph (Some h) (commit1 s) (commit2 s) = (i, j, k)"
    by (cases "scan_graph graph (Some h) (commit1 s) (commit2 s)")
  then have "\<exists>a' b'. commit1 (commit_click graph (Some h) s) = Some a' \<and>
      commit2 (commit_click graph (Some h) s) = Some b'"
    using assms by (simp add: commit_click_def Let_def)
  then show ?thesis using read_back_defined by blast
qed

text \<open>
  Claim C5. In a commit graph without repeated hashes, let the clicked hash stand at index
  \<open>h\<close> and the selected \<open>commit1\<close> and \<open>commit2\<close> at indices \<open>c1\<close> and \<open>c2\<close>. Then
  \<open>commit_click\<close> replaces \<open>commit2\<close> by the clicked hash if \<open>h \<le> c2\<close>, otherwise
  \<open>commit1\<close> if \<open>h \<ge> c1\<close>, and otherwise (\<open>c2 < h < c1\<close>) \<open>commit2\<close> when \<open>h\<close>
  is strictly nearer to \<open>c2\<close> than to \<open>c1\<close> and \<open>commit1\<close> when it is nearer to
  \<open>c1\<close> or at the same distance of both; the other selected commit is unchanged.
\<close>

theorem commit_click_replaces:
  assumes "distinct graph" and "h < length graph" and "c1 < length graph" and "c2 < length graph"
    and "commit1 s = Some (graph ! c1)" and "commit2 s = Some (graph ! c2)"
  shows "(commit1 (commit_click graph (Some (graph ! h)) s),
          commit2 (commit_click graph (Some (graph ! h)) s)) =
         (if h \<le> c2 then (commit1 s, Some (graph ! h))
          else if c1 \<le> h then (Some (graph ! h), commit2 s)
          else if h - c2 < c1 - h then (commit1 s, Some (graph ! h))
          else (Some (graph ! h), commit2 s))"
proof -
  have "scan_graph graph (Some (graph ! h)) (commit1 s) (commit2 s) = (h, c1, c2)"
    using scan_graph_distinct [OF assms(1-4)] assms(5,6) by simp
  then show ?thesis
    by (auto simp: commit_click_def Let_def)
qed

theorem commit_click_replaces_witness:
  "(commit1 (commit_click [''a'', ''b'', ''c'', ''d'', ''e''] (Some ''c'')
               \<lparr>commit1 = Some ''e'', commit2 = Some ''a'', style = []\<rparr>),
    commit2 (commit_click [''a'', ''b'', ''c'', ''d'', ''e''] (Some ''c'')
               \<lparr>commit1 = Some ''e'', commit2 = Some ''a'', style = []\<rparr>)) =
   (Some ''c'', Some ''a'')"
  using commit_click_replaces [of "[''a'', ''b'', ''c'', ''d'', ''e'']" 2 4 0
          "\<lparr>commit1 = Some ''e'', commit2 = Some ''a'', style = []\<rparr>"]
  by simp

section \<open>Properties of the URL probe\<close>

declare toString.simps [simp del]
declare first_digit.simps [simp del]

lemma digit_char_2:
  assumes "d < 10"
  shows "(digit_char d = CHR ''2'') = (d = 2)"
proof -
  have "(digit_char d = CHR ''2'') =
        ((of_char (char_of (48 + d)) :: nat) = of_char (CHR ''2''))"
    unfolding digit_char_def by (simp only: of_char_eq_iff)
  also have "\<dots> = ((48 + d) mod 256 = 50)"
    by (simp add: of_char_of)
  also have "\<dots> = (d = 2)"
    using assms by auto
  finally show ?thesis .
qed

lemma first_digit_less: "first_digit n < 10"
  by (induction n rule: first_digit.induct) (simp add: first_digit.simps)

lemma toString_first:
  "toString n \<noteq> [] \<and> toString n ! 0 = digit_char (first_digit n)"
proof (induction n rule: toString.induct)
  case (1 n)
  show ?case
  proof (cases "n < 10")
    case True
    then show ?thesis
      by (simp add: toString.simps [of n] first_digit.simps [of n])
  next
    case False
    with 1 show ?thesis
      by (simp add: toString.simps [of n] first_digit.simps [of n] nth_append)
  qed
qed

lemma onprogress_first_digit: "onprogress status = (first_digit status = 2)"
  using toString_first [of status] first_digit_less [of status]
  by (simp add: onprogress_def js_char_at_def digit_char_2)

lemma first_digit_three_digits:
  assumes "100 \<le> status" "status \<le> 999"
  shows "first_digit status = status div 100"
proof -
  have "\<not> status < 10" "\<not> status div 10 < 10" "status div 10 div 10 < 10"
    using assms by auto
  moreover have "status div 10 div 10 = status div 100"
    by (simp add: div_mult2_eq)
  ultimately show ?thesis
    by (simp add: first_digit.simps [of status] first_digit.simps [of "status div 10"]
        first_digit.simps [of "status div 100"])
qed

text \<open>
  Claim C4. When the browser delivers a progress event, the callback is invoked once, with
  \<open>True\<close> exactly when the first decimal digit of the status is 2; for a three-digit
  HTTP status this is exactly the range 200 to 299, and every other status gives \<open>False\<close>.
  Nothing but the status enters the decision.
\<close>

theorem if_url_exists_status:
  "if_url_exists (status # later) = [first_digit status = 2]
   \<and> (100 \<le> status \<and> status \<le> 999 \<longrightarrow>
        if_url_exists (status # later) = [200 \<le> status \<and> status \<le> 299])"
proof -
  have "first_digit status = 2 \<longleftrightarrow> 200 \<le> status \<and> status \<le> 299"
    if "100 \<le> status" "status \<le> 999"
    using first_digit_three_digits [OF that] by auto
  then show ?thesis
    by (simp add: onprogress_first_digit)
qed

theorem if_url_exists_status_witness:
  "if_url_exists [204, 204] = [True] \<and> if_url_exists [404] = [False]"
  using if_url_exists_status [of 204 "[204]", THEN conjunct2]
    if_url_exists_status [of 404 "[]", THEN conjunct2]
  by simp

section \<open>Properties of the sheet list\<close>

lemma split_on_nonempty [simp]: "split_on c s \<noteq> []"
  by (induction s) (auto split: list.splits)








lemma set_dedup [simp]: "set (dedup xs) = set xs"
  by (induction xs rule: dedup.induct) auto

lemma distinct_dedup [simp]: "distinct (dedup xs)"
  by (induction xs rule: dedup.induct) auto








lemma length_set_checked [simp]: "length (set_checked k rs) = length rs"
  by (simp add: set_checked_def)

lemma nth_set_checked:
  "i < length rs \<Longrightarrow> set_checked k rs ! i = (rs ! i)\<lparr>rchecked := (i = k)\<rparr>"
  by (simp add: set_checked_def)

lemma map_rid_set_checked [simp]: "map rid (set_checked k rs) = map rid rs"
  by (intro nth_equalityI) (simp_all add: nth_set_checked)

lemma map_rvalue_set_checked [simp]: "map rvalue (set_checked k rs) = map rvalue rs"
  by (intro nth_equalityI) (simp_all add: nth_set_checked)

lemma map_fold_checked:
  assumes "\<And>k rs. map f (set_checked k rs) = map f rs"
  shows "map f (fold (\<lambda>i acc. if P i then set_checked i acc else acc) is acc) = map f acc"
  by (induction "is" arbitrary: acc) (simp_all add: assms)

lemma map_rid_check_by_value [simp]: "map rid (check_by_value v rs) = map rid rs"
  unfolding check_by_value_def by (rule map_fold_checked) simp

lemma map_rvalue_check_by_value [simp]: "map rvalue (check_by_value v rs) = map rvalue rs"
  unfolding check_by_value_def by (rule map_fold_checked) simp

lemma rendered_simps [simp]: "rid (rendered i v) = i" "rvalue (rendered i v) = v"
  by (simp_all add: rendered_def)

lemma map_rendered [simp]:
  "map (rid \<circ> (\<lambda>sheet. rendered sheet sheet)) xs = xs"
  "map (rvalue \<circ> (\<lambda>sheet. rendered sheet sheet)) xs = xs"
  by (induction xs) simp_all






section \<open>Properties of the view modes and of the page and layer selection\<close>

lemma view_fields_updates [simp]:
  "view_fields (s\<lparr>pages := p\<rparr>) = view_fields s"
  "view_fields (s\<lparr>layers := l\<rparr>) = view_fields s"
  "view_fields (s\<lparr>selected_sheet := x\<rparr>) = view_fields s"
  "view_fields (s\<lparr>previous_selected_page := i\<rparr>) = view_fields s"
  "view_fields (s\<lparr>current_selected_page := j\<rparr>) = view_fields s"
  "view_fields (s\<lparr>embed := e\<rparr>) = view_fields s"
  by (simp_all add: view_fields_def)

lemma view_update_sheets_list:
  "view_fields (state_of (update_sheets_list env s)) = view_fields s"
  by (simp add: update_sheets_list_def Let_def split: option.splits outcome.splits)

lemma view_and_then:
  assumes "view_fields (state_of x) = v"
    and "\<And>t. view_fields t = v \<Longrightarrow> view_fields (state_of (f t)) = v"
  shows "view_fields (state_of (and_then x f)) = v"
  using assms by (cases x) simp_all

lemma view_update_page: "view_fields (state_of (update_page env s)) = view_fields s"
  unfolding update_page_def
  by (auto intro!: view_and_then view_update_sheets_list simp: check_radio_def Let_def)

lemma view_update_layers_list:
  "view_fields (state_of (update_layers_list env k s)) = view_fields s"
proof (cases "pcb_layers env")
  case None
  then show ?thesis by (simp add: update_layers_list_def)
next
  case (Some table)
  show ?thesis
    unfolding update_layers_list_def Let_def Some option.case
    by (auto intro!: view_and_then simp: check_radio_def split: outcome.splits)
qed

lemma view_update_layer_nonempty:
  assumes "layers s \<noteq> []"
  shows "view_fields (state_of (update_layer env s)) = view_fields s"
proof -
  have "check_radio 0 (layers s) = Done (set_checked 0 (layers s))"
    using assms by (simp add: check_radio_def)
  then show ?thesis
    unfolding update_layer_def Let_def
    by (auto intro!: view_and_then simp: view_update_layers_list)
qed

lemma update_layer_empty:
  assumes "layers s = []"
  shows "update_layer env s = show_sch env s"
  using assms by (simp add: update_layer_def check_radio_def)

text \<open>
  Claim C9, as amended. After a call of \<open>show_sch\<close>, \<open>show_pcb\<close> or \<open>show_3d\<close>
  (whether it returns or raises) exactly one of the three view-mode inputs is checked, the
  one named by the new value of \<open>current_view\<close>. After \<open>show_sch\<close> and \<open>show_3d\<close>,
  and after \<open>show_pcb\<close> when the layer list is not empty, \<open>current_view\<close> is the view
  asked for and \<open>old_view\<close> holds the value \<open>current_view\<close> had before the call. With an
  empty layer list \<open>show_pcb\<close> falls back to the schematic view: \<open>current_view\<close> is
  \<open>show_sch\<close> and \<open>old_view\<close> is \<open>show_pcb\<close>.
\<close>

theorem show_view_exclusive:
  "view_fields (state_of (show_sch env s)) =
     (Some ''show_sch'', current_view s, True, False, False)
   \<and> view_fields (state_of (show_3d env s)) =
     (Some ''show_3d'', current_view s, False, False, True)
   \<and> view_fields (state_of (show_pcb env s)) =
     (if layers s \<noteq> [] then (Some ''show_pcb'', current_view s, False, True, False)
      else (Some ''show_sch'', Some ''show_pcb'', True, False, False))"
proof -
  have sch: "view_fields (state_of (show_sch env t)) =
       (Some ''show_sch'', current_view t, True, False, False)" for t
    unfolding show_sch_def view_update_page by (simp add: view_fields_def)
  have d3: "view_fields (state_of (show_3d env s)) =
       (Some ''show_3d'', current_view s, False, False, True)"
    by (simp add: show_3d_def update_3d_def view_fields_def)
  let ?s1 = "s\<lparr>old_view := current_view s, current_view := Some ''show_pcb'',
          show_pcb_checked := True, show_sch_checked := False, show_3d_checked := False\<rparr>"
  have pcb: "view_fields (state_of (show_pcb env s)) =
     (if layers s \<noteq> [] then (Some ''show_pcb'', current_view s, False, True, False)
      else (Some ''show_sch'', Some ''show_pcb'', True, False, False))"
  proof (cases "layers s = []")
    case True
    then have "show_pcb env s = show_sch env ?s1"
      unfolding show_pcb_def by (intro update_layer_empty) simp
    then show ?thesis using True sch [of ?s1] by simp
  next
    case False
    then have "view_fields (state_of (show_pcb env s)) = view_fields ?s1"
      unfolding show_pcb_def by (intro view_update_layer_nonempty) simp
    then show ?thesis using False by (simp add: view_fields_def)
  qed
  show ?thesis using sch [of s] d3 pcb by simp
qed

text \<open>
  Claim C9 as stated fails on a page without layers: \<open>show_pcb\<close> called in the schematic
  view leaves \<open>old_view = show_pcb\<close>, not the \<open>show_sch\<close> that \<open>current_view\<close> held
  before the call.
\<close>

theorem show_pcb_old_view_counterexample:
  "current_view no_layers_page = Some ''show_sch''
   \<and> old_view (state_of (show_pcb example_files no_layers_page)) = Some ''show_pcb''
   \<and> old_view (state_of (show_pcb example_files no_layers_page)) \<noteq> current_view no_layers_page"
  by code_simp

lemma index_checked_bounds: "- 1 \<le> index_checked rs \<and> index_checked rs < int (length rs)"
  by (induction rs) (auto simp: Let_def)

lemma index_checked_eqI:
  assumes "k < length rs" "rchecked (rs ! k)" "\<forall>i<k. \<not> rchecked (rs ! i)"
  shows "index_checked rs = int k"
  using assms
proof (induction rs arbitrary: k)
  case Nil
  then show ?case by simp
next
  case (Cons r rs)
  show ?case
  proof (cases k)
    case 0
    with Cons.prems show ?thesis by simp
  next
    case (Suc m)
    have "index_checked rs = int m"
      using Cons.prems Suc by (intro Cons.IH) auto
    moreover have "\<not> rchecked r" using Cons.prems(3) Suc by auto
    ultimately show ?thesis using Suc by (simp add: Let_def)
  qed
qed

lemma index_checked_set_checked:
  "k < length rs \<Longrightarrow> index_checked (set_checked k rs) = int k"
  by (rule index_checked_eqI) (simp_all add: nth_set_checked)

lemma update_sheets_list_unchanged:
  assumes "sheets_unchanged env s"
  shows "\<exists>x. update_sheets_list env s = Done (s\<lparr>selected_sheet := x\<rparr>)"
proof -
  obtain text1 text2 where l: "loadFile (sch_sheets_1 env) = Some text1"
    "loadFile (sch_sheets_2 env) = Some text2" "sheets_list text1 text2 = map rid (pages s)"
    using assms by (auto simp: sheets_unchanged_def split: option.splits)
  show ?thesis
  proof (cases "js_id_at (pages s) (index_checked (pages s))")
    case None
    then have "update_sheets_list env s = Done (s\<lparr>selected_sheet := selected_sheet s\<rparr>)"
      using l by (simp add: update_sheets_list_def)
    then show ?thesis by blast
  next
    case (Some i)
    then have "update_sheets_list env s = Done (s\<lparr>selected_sheet := Some i\<rparr>)"
      using l by (simp add: update_sheets_list_def)
    then show ?thesis by blast
  qed
qed

lemma update_page_unchanged:
  assumes "sheets_unchanged env s" "previous_selected_page s = - 1" "0 \<le> index_checked (pages s)"
  shows "\<exists>s'. update_page env s = Done s' \<and> pages s' = pages s"
proof -
  obtain x where "update_sheets_list env s = Done (s\<lparr>selected_sheet := x\<rparr>)"
    using update_sheets_list_unchanged [OF assms(1)] by blast
  then show ?thesis
    using assms(2,3) by (simp add: update_page_def)
qed

lemma update_layer_unchanged:
  assumes "layers_unchanged env s" "0 \<le> index_checked (layers s)"
  shows "\<exists>s'. update_layer env s = Done s' \<and> layers s' = layers s"
proof -
  obtain table where t: "pcb_layers env = Some table"
    "map snd table = map (\<lambda>opt. replace_first ''layer-'' [] (rvalue opt)) (layers s)"
    using assms(1) by (auto simp: layers_unchanged_def split: option.splits)
  show ?thesis
    using assms(2) t by (simp add: update_layer_def update_layers_list_def)
qed


lemma sheets_unchanged_checked:
  "sheets_unchanged env (s\<lparr>pages := set_checked k (pages s)\<rparr>) = sheets_unchanged env s"
  by (simp add: sheets_unchanged_def split: option.splits)

lemma layers_unchanged_checked:
  "layers_unchanged env (s\<lparr>layers := set_checked k (layers s)\<rparr>) = layers_unchanged env s"
proof -
  have "map (\<lambda>opt. replace_first ''layer-'' [] (rvalue opt)) (set_checked k (layers s)) =
        map (\<lambda>opt. replace_first ''layer-'' [] (rvalue opt)) (layers s)"
    by (intro nth_equalityI) (simp_all add: nth_set_checked)
  then show ?thesis by (simp add: layers_unchanged_def split: option.splits)
qed

lemma next_index_eq:
  assumes "index_checked rs = int k"
  shows "next_index cycle rs =
           int (if k + 1 < length rs then k + 1 else if cycle then 0 else length rs - 1)"
    and "(if k + 1 < length rs then k + 1 else if cycle then 0 else length rs - 1) < length rs"
  using assms index_checked_bounds [of rs] by (auto simp: next_index_def Let_def)

lemma preview_index_eq:
  assumes "index_checked rs = int k"
  shows "preview_index cycle rs =
           int (if 0 < k then k - 1 else if cycle then length rs - 1 else 0)"
    and "(if 0 < k then k - 1 else if cycle then length rs - 1 else 0) < length rs"
  using assms index_checked_bounds [of rs] by (auto simp: preview_index_def Let_def)

lemma check_radio_Done:
  "k < length rs \<Longrightarrow> check_radio (int k) rs = Done (set_checked k rs)"
  by (simp add: check_radio_def)

lemma select_pages_step:
  assumes "k' < length (pages s)" "previous_selected_page s = - 1" "sheets_unchanged env s"
  shows "\<exists>s'. update_page env (s\<lparr>pages := set_checked k' (pages s)\<rparr>) = Done s' \<and>
              pages s' = set_checked k' (pages s) \<and> index_checked (pages s') = int k'"
proof -
  let ?t = "s\<lparr>pages := set_checked k' (pages s)\<rparr>"
  have i: "index_checked (pages ?t) = int k'"
    using assms(1) by (simp add: index_checked_set_checked)
  obtain s' where "update_page env ?t = Done s'" "pages s' = pages ?t"
    using update_page_unchanged [of env ?t] assms(2,3) i
    by (auto simp: sheets_unchanged_checked)
  then show ?thesis using i by simp
qed

lemma select_layers_step:
  assumes "k' < length (layers s)" "layers_unchanged env s"
  shows "\<exists>s'. update_layer env (s\<lparr>layers := set_checked k' (layers s)\<rparr>) = Done s' \<and>
              index_checked (layers s') = int k'"
proof -
  let ?t = "s\<lparr>layers := set_checked k' (layers s)\<rparr>"
  have i: "index_checked (layers ?t) = int k'"
    using assms(1) by (simp add: index_checked_set_checked)
  obtain s' where "update_layer env ?t = Done s'" "layers s' = layers ?t"
    using update_layer_unchanged [of env ?t] assms(2) i
    by (auto simp: layers_unchanged_checked)
  then show ?thesis using i by simp
qed

text \<open>
  Claim C10, as amended. Let the selected index of the list at hand be \<open>k\<close>, and let the
  files of the selected commits give the list that is displayed. For the page list, let
  moreover no reversion be pending (\<open>previous_selected_page = -1\<close>). Then
  \<open>select_next_sch_or_pcb\<close> returns with index \<open>k + 1\<close> selected when that is in range,
  and at the last entry with the last entry (no cycle) or index 0 (cycle);
  \<open>select_preview_sch_or_pcb\<close> returns with \<open>k - 1\<close> selected, and at index 0 with
  index 0 (no cycle) or the last index (cycle). The first function works on the pages
  when the input \<open>show_sch\<close> is checked and on the layers otherwise; the second on the
  pages when \<open>current_view\<close> is \<open>show_sch\<close> and on the layers when it is \<open>show_pcb\<close>.
\<close>

theorem select_next_preview_index:
  "(show_sch_checked s \<and> index_checked (pages s) = int k \<and>
      previous_selected_page s = - 1 \<and> sheets_unchanged env s \<longrightarrow>
      (\<exists>s'. select_next_sch_or_pcb cycle env s = Done s' \<and>
        index_checked (pages s') =
          int (if k + 1 < length (pages s) then k + 1
               else if cycle then 0 else length (pages s) - 1)))
   \<and> (\<not> show_sch_checked s \<and> index_checked (layers s) = int k \<and> layers_unchanged env s \<longrightarrow>
      (\<exists>s'. select_next_sch_or_pcb cycle env s = Done s' \<and>
        index_checked (layers s') =
          int (if k + 1 < length (layers s) then k + 1
               else if cycle then 0 else length (layers s) - 1)))
   \<and> (current_view s = Some ''show_sch'' \<and> index_checked (pages s) = int k \<and>
      previous_selected_page s = - 1 \<and> sheets_unchanged env s \<longrightarrow>
      (\<exists>s'. select_preview_sch_or_pcb cycle env s = Done s' \<and>
        index_checked (pages s') =
          int (if 0 < k then k - 1 else if cycle then length (pages s) - 1 else 0)))
   \<and> (current_view s = Some ''show_pcb'' \<and> index_checked (layers s) = int k \<and>
      layers_unchanged env s \<longrightarrow>
      (\<exists>s'. select_preview_sch_or_pcb cycle env s = Done s' \<and>
        index_checked (layers s') =
          int (if 0 < k then k - 1 else if cycle then length (layers s) - 1 else 0)))"
proof (intro conjI impI; elim conjE)
  assume a: "show_sch_checked s" "index_checked (pages s) = int k"
    "previous_selected_page s = - 1" "sheets_unchanged env s"
  let ?k = "if k + 1 < length (pages s) then k + 1 else if cycle then 0 else length (pages s) - 1"
  obtain s' where "update_page env (s\<lparr>pages := set_checked ?k (pages s)\<rparr>) = Done s'"
    "index_checked (pages s') = int ?k"
    using select_pages_step [OF next_index_eq(2) [OF a(2)] a(3,4)] by blast
  then show "\<exists>s'. select_next_sch_or_pcb cycle env s = Done s' \<and> index_checked (pages s') = int ?k"
    using a(1) next_index_eq [OF a(2), of cycle]
    by (simp add: select_next_sch_or_pcb_def check_radio_Done)
next
  assume a: "\<not> show_sch_checked s" "index_checked (layers s) = int k" "layers_unchanged env s"
  let ?k = "if k + 1 < length (layers s) then k + 1 else if cycle then 0 else length (layers s) - 1"
  show "\<exists>s'. select_next_sch_or_pcb cycle env s = Done s' \<and> index_checked (layers s') = int ?k"
    using a(1) next_index_eq [OF a(2), of cycle]
      select_layers_step [OF next_index_eq(2) [OF a(2)] a(3), of cycle]
    by (simp add: select_next_sch_or_pcb_def check_radio_Done)
next
  assume a: "current_view s = Some ''show_sch''" "index_checked (pages s) = int k"
    "previous_selected_page s = - 1" "sheets_unchanged env s"
  let ?k = "if 0 < k then k - 1 else if cycle then length (pages s) - 1 else 0"
  obtain s' where s': "update_page env (s\<lparr>pages := set_checked ?k (pages s)\<rparr>) = Done s'"
    "pages s' = set_checked ?k (pages s)" "index_checked (pages s') = int ?k"
    using select_pages_step [OF preview_index_eq(2) [OF a(2)] a(3,4)] by blast
  have "sheets_unchanged env s'"
    using a(4) s'(2) by (simp add: sheets_unchanged_def split: option.splits)
  then obtain x where "update_sheets_list env s' = Done (s'\<lparr>selected_sheet := x\<rparr>)"
    using update_sheets_list_unchanged by blast
  then show "\<exists>s'. select_preview_sch_or_pcb cycle env s = Done s' \<and>
      index_checked (pages s') = int ?k"
    using a(1) preview_index_eq [OF a(2), of cycle] s'
    by (simp add: select_preview_sch_or_pcb_def check_radio_Done)
next
  assume a: "current_view s = Some ''show_pcb''" "index_checked (layers s) = int k"
    "layers_unchanged env s"
  let ?k = "if 0 < k then k - 1 else if cycle then length (layers s) - 1 else 0"
  show "\<exists>s'. select_preview_sch_or_pcb cycle env s = Done s' \<and>
      index_checked (layers s') = int ?k"
    using a(1) preview_index_eq [OF a(2), of cycle]
      select_layers_step [OF preview_index_eq(2) [OF a(2)] a(3), of cycle]
    by (simp add: select_preview_sch_or_pcb_def check_radio_Done)
qed


theorem select_next_preview_index_witness:
  "(\<exists>s'. select_next_sch_or_pcb True example_files (example_page 2) = Done s' \<and>
          index_checked (pages s') = 0)
   \<and> (\<exists>s'. select_next_sch_or_pcb False example_files layers_page = Done s' \<and>
          index_checked (layers s') = 1)
   \<and> (\<exists>s'. select_preview_sch_or_pcb False example_files (example_page 2) = Done s' \<and>
          index_checked (pages s') = 1)
   \<and> (\<exists>s'. select_preview_sch_or_pcb True example_files layers_page = Done s' \<and>
          index_checked (layers s') = 1)"
proof -
  have p: "show_sch_checked (example_page 2)" "current_view (example_page 2) = Some ''show_sch''"
    "index_checked (pages (example_page 2)) = int 2"
    "previous_selected_page (example_page 2) = - 1"
    "sheets_unchanged example_files (example_page 2)"
    "length (pages (example_page 2)) = 3"
    by code_simp+
  have l: "\<not> show_sch_checked layers_page" "current_view layers_page = Some ''show_pcb''"
    "index_checked (layers layers_page) = int 0"
    "layers_unchanged example_files layers_page"
    "length (layers layers_page) = 2"
    by code_simp+
  note t1 = select_next_preview_index [of "example_page 2" 2 example_files True]
  note t2 = select_next_preview_index [of layers_page 0 example_files False]
  note t3 = select_next_preview_index [of "example_page 2" 2 example_files False]
  note t4 = select_next_preview_index [of layers_page 0 example_files True]
  show ?thesis
    using t1 [THEN conjunct1] t2 [THEN conjunct2, THEN conjunct1]
      t3 [THEN conjunct2, THEN conjunct2, THEN conjunct1]
      t4 [THEN conjunct2, THEN conjunct2, THEN conjunct2] p l
    by simp
qed

text \<open>
  Claim C10 as stated fails while a reversion is pending: on the three-page list with
  index 0 selected and \<open>previous_selected_page = 2\<close>, both functions (no cycle) end with
  index 2 selected, where the claim says 1 and 0. \<open>update_page\<close> checks the page at
  \<open>previous_selected_page\<close> after the new index was set (lines 603-608). The state is the
  one \<open>update_page\<close> leaves when the selected sheet is absent from the new commits' list.

  It also fails when the displayed list is not the one the files give, since the list is
  then rendered anew: from index 2 of four stale pages the next page ends at index 2 of
  the three new ones (the same sheet), and from index 1 of three stale layers the next
  layer ends with a TypeError and no layer checked, the new list having two layers.
\<close>

theorem select_next_index_counterexample:
  "show_sch_checked pending_page \<and> current_view pending_page = Some ''show_sch''
   \<and> length (pages pending_page) = 3 \<and> index_checked (pages pending_page) = 0
   \<and> index_checked (pages (state_of (select_next_sch_or_pcb False example_files pending_page))) = 2
   \<and> index_checked (pages (state_of (select_preview_sch_or_pcb False example_files pending_page))) = 2
   \<and> show_sch_checked stale_page
   \<and> length (pages stale_page) = 4 \<and> index_checked (pages stale_page) = 2
   \<and> index_checked (pages (state_of (select_next_sch_or_pcb False example_files stale_page))) = 2
   \<and> \<not> show_sch_checked stale_layers_page
   \<and> length (layers stale_layers_page) = 3 \<and> index_checked (layers stale_layers_page) = 1
   \<and> index_checked (layers (state_of
         (select_next_sch_or_pcb False example_files stale_layers_page))) = - 1"
  by code_simp

lemma pending_page_reached: "update_page example_files stale_page = Done pending_page"
  by code_simp

section \<open>Properties of the saved pan and zoom\<close>

lemma removeEmbed_keeps_sch:
  "the_current_view \<noteq> Some ''show_pcb'' \<Longrightarrow>
     sch_saved (removeEmbed the_old_view the_current_view pz) = sch_saved pz"
  by (simp add: removeEmbed_def sch_saved_def Let_def split: option.splits)

lemma removeEmbed_keeps_pcb:
  "the_current_view \<noteq> Some ''show_sch'' \<Longrightarrow>
     pcb_saved (removeEmbed the_old_view the_current_view pz) = pcb_saved pz"
  by (simp add: removeEmbed_def pcb_saved_def Let_def split: option.splits)

lemma onUpdatedCTM_keeps_sch:
  "the_current_view \<noteq> Some ''show_sch'' \<Longrightarrow>
     sch_saved (state_of (onUpdatedCTM the_current_view pz)) = sch_saved pz"
  by (simp add: onUpdatedCTM_def sch_saved_def split: option.splits)

lemma onUpdatedCTM_keeps_pcb:
  "the_current_view = Some ''show_sch'' \<Longrightarrow>
     pcb_saved (state_of (onUpdatedCTM the_current_view pz)) = pcb_saved pz"
  by (simp add: onUpdatedCTM_def pcb_saved_def split: option.splits)

lemma createNewEmbed_keeps_saved:
  "sch_saved (createNewEmbed kind fresh pz) = sch_saved pz"
  "pcb_saved (createNewEmbed kind fresh pz) = pcb_saved pz"
  "calls (createNewEmbed kind fresh pz) = calls pz"
  by (simp_all add: createNewEmbed_def sch_saved_def pcb_saved_def)

lemma removeEmbed_saves:
  assumes "panZoom_instance pz = Some (kind, zoom, pan)" "the_old_view \<noteq> Some ''show_3d''"
  shows "sch_saved (removeEmbed the_old_view (Some ''show_pcb'') pz) = (Some zoom, Some pan, None)"
    and "pcb_saved (removeEmbed the_old_view (Some ''show_sch'') pz) = (Some zoom, Some pan, None)"
  using assms by (simp_all add: removeEmbed_def sch_saved_def pcb_saved_def)

lemma onUpdatedCTM_restores_sch:
  assumes "sch_saved pz = (Some zoom, Some pan, None)" "panZoom_instance pz = Some i"
  shows "onUpdatedCTM (Some ''show_sch'') pz =
           Done (pz\<lparr>calls := calls pz @ [Zoom (Some zoom), Pan (Some pan)],
                    sch_old_zoom := Some zoom\<rparr>)"
  using assms by (simp add: onUpdatedCTM_def sch_saved_def)

lemma onUpdatedCTM_restores_pcb:
  assumes "pcb_saved pz = (Some zoom, Some pan, None)" "panZoom_instance pz = Some i"
  shows "onUpdatedCTM (Some ''show_pcb'') pz =
           Done (pz\<lparr>calls := calls pz @ [Zoom (Some zoom), Pan (Some pan)],
                    pcb_old_zoom := Some zoom\<rparr>)"
  using assms by (simp add: onUpdatedCTM_def pcb_saved_def)

lemma frame_and_then:
  assumes "P (state_of x)" and "\<And>t. P t \<Longrightarrow> P (state_of (f t))"
  shows "P (state_of (and_then x f))"
  using assms by (cases x) simp_all

lemma and_then_Done:
  "and_then x f = Done y \<longleftrightarrow> (\<exists>t. x = Done t \<and> f t = Done y)"
  by (cases x) simp_all

lemma update_sheets_list_frame:
  "embed (state_of (update_sheets_list env s)) = embed s"
  by (simp add: update_sheets_list_def Let_def split: option.splits outcome.splits)

lemma update_layers_list_frame:
  "embed (state_of (update_layers_list env k s)) = embed s"
proof (cases "pcb_layers env")
  case None
  then show ?thesis by (simp add: update_layers_list_def)
next
  case (Some table)
  show ?thesis
    unfolding update_layers_list_def Let_def Some option.case
    by (auto intro!: frame_and_then [where P = "\<lambda>t. embed t = embed s"]
          simp: check_radio_def split: outcome.splits)
qed

lemma update_page_embed:
  assumes "update_page env s = Done s'"
  shows "embed s' = swap_embed Schematic (fresh_instance env) (old_view s) (current_view s) (embed s)"
proof -
  let ?P = "\<lambda>t. (embed t, view_fields t) = (embed s, view_fields s)"
  have 1: "?P (state_of (update_sheets_list env s))"
    by (simp add: update_sheets_list_frame view_update_sheets_list)
  obtain s1 s2 s4 where st: "update_sheets_list env s = Done s1"
    "(if previous_selected_page s1 > - 1
        then (case check_radio (previous_selected_page s1) (pages s1) of
                Done p \<Rightarrow> Done (s1\<lparr>pages := p, previous_selected_page := - 1\<rparr>)
              | Threw p \<Rightarrow> Threw s1)
        else Done s1) = Done s2"
    "(let selected_page = index_checked (pages s2)
        in if selected_page \<ge> 0 then Done (s2\<lparr>current_selected_page := selected_page\<rparr>)
           else (let s3 = s2\<lparr>previous_selected_page := current_selected_page s2\<rparr>
                 in case check_radio 0 (pages s3) of
                      Done p \<Rightarrow> Done (s3\<lparr>pages := p\<rparr>)
                    | Threw p \<Rightarrow> Threw s3)) = Done s4"
    "s' = s4\<lparr>embed := swap_embed Schematic (fresh_instance env)
                            (old_view s4) (current_view s4) (embed s4)\<rparr>"
    using assms unfolding update_page_def and_then_Done by auto
  have "?P s1" using 1 st(1) by simp
  then have "?P s2" using st(2) by (auto split: if_splits outcome.splits)
  then have "?P s4" using st(3) by (auto simp: Let_def split: if_splits outcome.splits)
  then show ?thesis using st(4) by (simp add: view_fields_def)
qed

lemma update_layer_embed:
  assumes "update_layer env s = Done s'" and "layers s \<noteq> []"
  shows "embed s' = swap_embed Layout (fresh_instance env) (old_view s) (current_view s) (embed s)"
proof -
  have c: "check_radio 0 (layers s) = Done (set_checked 0 (layers s))"
    using assms(2) by (simp add: check_radio_def)
  obtain k u t where t: "update_layers_list env k u = Done t"
    "embed u = embed s" "view_fields u = view_fields s"
    "s' = t\<lparr>embed := swap_embed Layout (fresh_instance env)
                          (old_view t) (current_view t) (embed t)\<rparr>"
  proof (cases "0 \<le> index_checked (layers s)")
    case True
    then show ?thesis
      using assms(1) that [of "index_checked (layers s)" s]
      by (auto simp: update_layer_def Let_def and_then_Done)
  next
    case False
    then show ?thesis
      using assms(1) c
        that [of "index_checked (set_checked 0 (layers s))" "s\<lparr>layers := set_checked 0 (layers s)\<rparr>"]
      by (auto simp: update_layer_def Let_def and_then_Done)
  qed
  have "embed t = embed s" "view_fields t = view_fields s"
    using update_layers_list_frame [of env k u] view_update_layers_list [of env k u] t(1,2,3)
    by simp_all
  then show ?thesis using t(4) by (simp add: view_fields_def)
qed

text \<open>
  A switch from the schematic to the PCB view by \<open>show_pcb\<close>, on a page that has layers,
  runs \<open>removeEmbed\<close> on the schematic's instance and saves into the schematic's
  variables; \<open>show_sch\<close> called in the PCB view then creates a new schematic instance,
  on which the next callback restores what was saved. The same with the two views
  exchanged.
\<close>

lemma show_pcb_saves_schematic:
  assumes "current_view s = Some ''show_sch''"
    and "panZoom_instance (embed s) = Some (Schematic, zoom, pan)"
    and "layers s \<noteq> []" and "show_pcb env s = Done s'"
  shows "sch_saved (embed s') = (Some zoom, Some pan, None)"
    and "pcb_saved (embed s') = pcb_saved (embed s)"
    and "panZoom_instance (embed s') = Some (Layout, fresh_instance env)"
    and "current_view s' = Some ''show_pcb''"
proof -
  let ?s1 = "s\<lparr>old_view := current_view s, current_view := Some ''show_pcb'',
          show_pcb_checked := True, show_sch_checked := False, show_3d_checked := False\<rparr>"
  have e: "embed s' = createNewEmbed Layout (fresh_instance env)
             (removeEmbed (Some ''show_sch'') (Some ''show_pcb'') (embed s))"
    using update_layer_embed [of env ?s1 s'] assms
    by (simp add: show_pcb_def swap_embed_def)
  show "sch_saved (embed s') = (Some zoom, Some pan, None)"
    unfolding e createNewEmbed_keeps_saved using assms(2) by (intro removeEmbed_saves) simp_all
  show "pcb_saved (embed s') = pcb_saved (embed s)"
    unfolding e createNewEmbed_keeps_saved by (intro removeEmbed_keeps_pcb) simp
  show "panZoom_instance (embed s') = Some (Layout, fresh_instance env)"
    unfolding e by (simp add: createNewEmbed_def)
  have "view_fields (state_of (show_pcb env s)) = view_fields ?s1"
    unfolding show_pcb_def using assms(3) by (intro view_update_layer_nonempty) simp
  then show "current_view s' = Some ''show_pcb''"
    using assms(4) by (simp add: view_fields_def)
qed

lemma show_sch_restores_schematic:
  assumes "current_view s = Some ''show_pcb''"
    and "sch_saved (embed s) = (Some zoom, Some pan, None)"
    and "show_sch env s = Done s'"
  shows "updated_CTM s' =
           Done (s'\<lparr>embed := (embed s')\<lparr>calls := calls (embed s') @ [Zoom (Some zoom), Pan (Some pan)],
                                        sch_old_zoom := Some zoom\<rparr>\<rparr>)"
proof -
  let ?s1 = "s\<lparr>old_view := current_view s, current_view := Some ''show_sch'',
          show_sch_checked := True, show_pcb_checked := False, show_3d_checked := False\<rparr>"
  have e: "embed s' = createNewEmbed Schematic (fresh_instance env)
             (removeEmbed (Some ''show_pcb'') (Some ''show_sch'') (embed s))"
    using update_page_embed [of env ?s1 s'] assms
    by (simp add: show_sch_def swap_embed_def)
  have "sch_saved (embed s') = (Some zoom, Some pan, None)"
    unfolding e createNewEmbed_keeps_saved using assms(2) by (simp add: removeEmbed_keeps_sch)
  moreover have "panZoom_instance (embed s') = Some (Schematic, fresh_instance env)"
    unfolding e by (simp add: createNewEmbed_def)
  moreover have "view_fields (state_of (show_sch env s)) = view_fields ?s1"
    unfolding show_sch_def by (rule view_update_page)
  then have "current_view s' = Some ''show_sch''"
    using assms(3) by (simp add: view_fields_def)
  ultimately show ?thesis
    by (simp add: updated_CTM_def onUpdatedCTM_restores_sch)
qed

lemma show_sch_saves_layout:
  assumes "current_view s = Some ''show_pcb''"
    and "panZoom_instance (embed s) = Some (Layout, zoom, pan)"
    and "show_sch env s = Done s'"
  shows "pcb_saved (embed s') = (Some zoom, Some pan, None)"
    and "sch_saved (embed s') = sch_saved (embed s)"
    and "panZoom_instance (embed s') = Some (Schematic, fresh_instance env)"
    and "current_view s' = Some ''show_sch''"
proof -
  let ?s1 = "s\<lparr>old_view := current_view s, current_view := Some ''show_sch'',
          show_sch_checked := True, show_pcb_checked := False, show_3d_checked := False\<rparr>"
  have e: "embed s' = createNewEmbed Schematic (fresh_instance env)
             (removeEmbed (Some ''show_pcb'') (Some ''show_sch'') (embed s))"
    using update_page_embed [of env ?s1 s'] assms
    by (simp add: show_sch_def swap_embed_def)
  show "pcb_saved (embed s') = (Some zoom, Some pan, None)"
    unfolding e createNewEmbed_keeps_saved using assms(2) by (intro removeEmbed_saves) simp_all
  show "sch_saved (embed s') = sch_saved (embed s)"
    unfolding e createNewEmbed_keeps_saved by (intro removeEmbed_keeps_sch) simp
  show "panZoom_instance (embed s') = Some (Schematic, fresh_instance env)"
    unfolding e by (simp add: createNewEmbed_def)
  have "view_fields (state_of (show_sch env s)) = view_fields ?s1"
    unfolding show_sch_def by (rule view_update_page)
  then show "current_view s' = Some ''show_sch''"
    using assms(3) by (simp add: view_fields_def)
qed

lemma show_pcb_restores_layout:
  assumes "current_view s = Some ''show_sch''"
    and "pcb_saved (embed s) = (Some zoom, Some pan, None)"
    and "layers s \<noteq> []" and "show_pcb env s = Done s'"
  shows "updated_CTM s' =
           Done (s'\<lparr>embed := (embed s')\<lparr>calls := calls (embed s') @ [Zoom (Some zoom), Pan (Some pan)],
                                        pcb_old_zoom := Some zoom\<rparr>\<rparr>)"
proof -
  let ?s1 = "s\<lparr>old_view := current_view s, current_view := Some ''show_pcb'',
          show_pcb_checked := True, show_sch_checked := False, show_3d_checked := False\<rparr>"
  have e: "embed s' = createNewEmbed Layout (fresh_instance env)
             (removeEmbed (Some ''show_sch'') (Some ''show_pcb'') (embed s))"
    using update_layer_embed [of env ?s1 s'] assms
    by (simp add: show_pcb_def swap_embed_def)
  have "pcb_saved (embed s') = (Some zoom, Some pan, None)"
    unfolding e createNewEmbed_keeps_saved using assms(2) by (simp add: removeEmbed_keeps_pcb)
  moreover have "panZoom_instance (embed s') = Some (Layout, fresh_instance env)"
    unfolding e by (simp add: createNewEmbed_def)
  moreover have "view_fields (state_of (show_pcb env s)) = view_fields ?s1"
    unfolding show_pcb_def using assms(3) by (intro view_update_layer_nonempty) simp
  then have "current_view s' = Some ''show_pcb''"
    using assms(4) by (simp add: view_fields_def)
  ultimately show ?thesis
    by (simp add: updated_CTM_def onUpdatedCTM_restores_pcb)
qed




text \<open>
  The variables of a view are also written after a switch is over. \<open>old_view\<close> keeps its
  value until the next view change or \<open>update_commits\<close>, so \<open>update_layer\<close> called for
  another layer in the PCB view finds \<open>current_view\<close> different from \<open>old_view\<close> again
  (line 1025), removes the embed and saves the zoom and pan of the layout's instance into
  the variables of the schematic view.
\<close>

lemma select_layer_overwrites_schematic:
  "current_view layers_page = Some ''show_pcb'' \<and> old_view layers_page = Some ''show_sch''
   \<and> panZoom_instance (embed layers_page) = Some (Layout, 2, (5, 7))
   \<and> sch_saved (embed (state_of (select_next_sch_or_pcb False example_files layers_page))) =
       (Some 2, Some (5, 7), None)"
  by code_simp

end
